theory Spec2Isabelle
  imports Complex_Main "HOL-Library.AList" "HOL-Library.Char_ord" "HOL-Library.List_Lexorder"
begin

section \<open>Python values used by vk\_mlst\_analysis.py\<close>

text \<open>
  Exceptions of the script are values. \<open>SystemExit\<close> is what \<open>sys.exit(1)\<close> raises;
  it is not an \<open>Exception\<close>, so no \<open>except Exception\<close> handler of the script stops it.
\<close>

datatype error = TypeError | ValueError | KeyError | OSError | FileNotFoundError | SystemExit

text \<open>
  A Python float, as far as the script uses one: it is only ever compared with \<open>>\<close>.
  A finite float is the rational number it denotes; \<open>NaN\<close> compares false with everything.
\<close>

datatype pyfloat = Fin rat | PInf | NInf | NaN

fun fgt :: "pyfloat \<Rightarrow> pyfloat \<Rightarrow> bool" where
  "fgt NaN _ = False"
| "fgt _ NaN = False"
| "fgt (Fin a) (Fin b) = (b < a)"
| "fgt PInf PInf = False"
| "fgt PInf _ = True"
| "fgt NInf _ = False"
| "fgt (Fin a) PInf = False"
| "fgt (Fin a) NInf = True"

text \<open>\<open>s.split(c)\<close> for a one-character separator: never the empty list.\<close>

fun split_on :: "char \<Rightarrow> string \<Rightarrow> string list" where
  "split_on c [] = [[]]"
| "split_on c (x # xs) =
     (if x = c then [] # split_on c xs
      else (x # hd (split_on c xs)) # tl (split_on c xs))"

text \<open>
  The built-ins \<open>int(...)\<close> and \<open>float(...)\<close> on a string are parameters of the model:
  \<open>pint s = None\<close> and \<open>pfloat s = None\<close> stand for \<open>ValueError\<close>. Applied to Python's
  \<open>None\<close> (a field that \<open>csv.DictReader\<close> filled with its \<open>restval\<close>) both raise
  \<open>TypeError\<close>.
\<close>

definition py_int :: "(string \<Rightarrow> int option) \<Rightarrow> string option \<Rightarrow> error + int" where
  "py_int pint v =
     (case v of None \<Rightarrow> Inl TypeError
      | Some s \<Rightarrow> (case pint s of None \<Rightarrow> Inl ValueError | Some n \<Rightarrow> Inr n))"

definition py_float :: "(string \<Rightarrow> pyfloat option) \<Rightarrow> string option \<Rightarrow> error + pyfloat" where
  "py_float pfloat v =
     (case v of None \<Rightarrow> Inl TypeError
      | Some s \<Rightarrow> (case pfloat s of None \<Rightarrow> Inl ValueError | Some x \<Rightarrow> Inr x))"

text \<open>
  Sample instances of the two built-ins, for evaluation on concrete files: a non-empty
  string of ASCII digits is read as Python reads it; everything else is rejected here.
\<close>

fun digit_val :: "char \<Rightarrow> nat option" where
  "digit_val c = (if CHR ''0'' \<le> c \<and> c \<le> CHR ''9'' then Some (of_char c - 48) else None)"

fun dec_nat :: "nat \<Rightarrow> string \<Rightarrow> nat option" where
  "dec_nat acc [] = Some acc"
| "dec_nat acc (c # cs) =
     (case digit_val c of None \<Rightarrow> None | Some d \<Rightarrow> dec_nat (10 * acc + d) cs)"

definition digits_int :: "string \<Rightarrow> int option" where
  "digits_int s = (if s = [] then None else map_option int (dec_nat 0 s))"

definition digits_float :: "string \<Rightarrow> pyfloat option" where
  "digits_float s = (if s = [] then None else map_option (\<lambda>n. Fin (of_nat n)) (dec_nat 0 s))"

section \<open>Logging\<close>

datatype level = INFO | WARNING | ERROR

text \<open>One constructor per logging call of the script that the model reaches.\<close>

datatype log_event =
    Analysis_started
  | Analysis_completed
  | No_argument string
  | Argument string string
  | Processing_allele_directory
  | Processing_genome_directory
  | Could_not_identify string
  | Could_not_process string
  | Loaded_alleles nat string string
  | Found_genes nat
  | Loaded_genome string string
  | Found_genomes nat
  | Output_directory_exists
  | Removing_directory
  | Created_directory
  | Could_not_create_directory
  | Running_BLAST
  | Generated_commands nat
  | Running_jobs nat
  | Command_failed nat string
  | Command_completed nat
  | Error_in_command nat
  | All_jobs_completed
  | Different_alleles string
  | Best_LS "int \<times> pyfloat \<times> string"
  | Best_ID "int \<times> pyfloat \<times> string"
  | Error_processing string
  | Assigning_sequence_types
  | Isolate_alleles string string
  | Assigned_ST string
  | Profile_not_found string
  | Loading_profiles
  | Gene_order
  | Loaded_profiles nat
  | Error_loading_profiles

fun level_of :: "log_event \<Rightarrow> level" where
  "level_of (No_argument _) = ERROR"
| "level_of (Could_not_identify _) = ERROR"
| "level_of (Could_not_process _) = ERROR"
| "level_of Output_directory_exists = ERROR"
| "level_of Could_not_create_directory = ERROR"
| "level_of (Error_in_command _) = ERROR"
| "level_of (Error_processing _) = ERROR"
| "level_of Error_loading_profiles = ERROR"
| "level_of (Command_failed _ _) = WARNING"
| "level_of (Different_alleles _) = WARNING"
| "level_of (Best_LS _) = WARNING"
| "level_of (Best_ID _) = WARNING"
| "level_of (Profile_not_found _) = WARNING"
| "level_of _ = INFO"

text \<open>
  What a function of the script does: it returns a value or raises, and it has logged.
  \<open>fatal e\<close> is \<open>logger.error(...)\<close> followed by \<open>sys.exit(1)\<close>.
\<close>

type_synonym 'a outcome = "(error + 'a) \<times> log_event list"

definition ok :: "'a \<Rightarrow> 'a outcome" where
  "ok x = (Inr x, [])"

definition raise :: "error \<Rightarrow> 'a outcome" where
  "raise e = (Inl e, [])"

definition fatal :: "log_event \<Rightarrow> 'a outcome" where
  "fatal e = (Inl SystemExit, [e])"

definition log_then :: "log_event \<Rightarrow> 'a outcome \<Rightarrow> 'a outcome" where
  "log_then e m = (fst m, e # snd m)"

definition and_then :: "'a outcome \<Rightarrow> ('a \<Rightarrow> 'b outcome) \<Rightarrow> 'b outcome" where
  "and_then m f =
     (case fst m of
        Inl e \<Rightarrow> (Inl e, snd m)
      | Inr x \<Rightarrow> (fst (f x), snd m @ snd (f x)))"

text \<open>
  A dictionary is an association list in insertion order; \<open>d[k] = v\<close> is
  \<open>AList.update k v d\<close>: an existing key keeps its place and takes the new value.
\<close>

section \<open>Best-match selector: \<open>_find_best_allele\<close>\<close>

text \<open>
  What the script finds at a path. \<open>Stat_error\<close>: \<open>Path.exists()\<close> itself raises \<open>OSError\<close>,
  as it does when the file name is too long or a directory of the path may not be
  searched; opening such a path raises too. \<open>Missing\<close>: \<open>Path.exists()\<close> is false.
  \<open>Unreadable\<close>: the file exists and opening, reading or CSV tokenising it raises.
  \<open>Rows\<close>: the rows that \<open>csv.reader\<close> yields with the tab delimiter, each row a list
  of fields.
\<close>

datatype file_state = Stat_error | Missing | Unreadable | Rows "string list list"

type_synonym filesystem = "string \<Rightarrow> file_state"

text \<open>
  \<open>csv.DictReader\<close> with the seven given field names: it skips rows equal to \<open>[]\<close>, and
  the field at position \<open>i\<close> of a shorter row is \<open>None\<close>. Positions:
  qseqid 0, sseqid 1, pident 2, qlen 3, length 4, gaps 5, mismatch 6.
\<close>

definition dict_rows :: "string list list \<Rightarrow> string list list" where
  "dict_rows rows = filter (\<lambda>r. r \<noteq> []) rows"

definition field :: "string list \<Rightarrow> nat \<Rightarrow> string option" where
  "field row i = (if i < length row then Some (row ! i) else None)"

text \<open>The tuples \<open>(ls, pident, allele_num)\<close> that the loop tracks.\<close>

type_synonym hit = "int \<times> pyfloat \<times> string"

abbreviation hit_ls :: "hit \<Rightarrow> int" where "hit_ls h \<equiv> fst h"
abbreviation hit_pident :: "hit \<Rightarrow> pyfloat" where "hit_pident h \<equiv> fst (snd h)"
abbreviation hit_allele :: "hit \<Rightarrow> string" where "hit_allele h \<equiv> snd (snd h)"

text \<open>
  The first four statements of the loop body: one row to one tuple, or the exception.
  The row is not \<open>[]\<close>, so \<open>row['qseqid']\<close> is its first field.
\<close>

definition parse_row ::
  "(string \<Rightarrow> int option) \<Rightarrow> (string \<Rightarrow> pyfloat option) \<Rightarrow> string list \<Rightarrow> error + hit" where
  "parse_row pint pfloat row =
     (let allele_num = last (split_on CHR ''_'' (row ! 0)) in
      case py_int pint (field row 3) of Inl e \<Rightarrow> Inl e | Inr qlen \<Rightarrow>
      case py_int pint (field row 4) of Inl e \<Rightarrow> Inl e | Inr len \<Rightarrow>
      case py_int pint (field row 5) of Inl e \<Rightarrow> Inl e | Inr gaps \<Rightarrow>
      case py_float pfloat (field row 2) of Inl e \<Rightarrow> Inl e | Inr pident \<Rightarrow>
        Inr (qlen - len + gaps, pident, allele_num))"

text \<open>The two tracking statements of the loop body.\<close>

definition track_pident :: "hit option \<Rightarrow> hit \<Rightarrow> hit option" where
  "track_pident best h =
     (case best of None \<Rightarrow> Some h
      | Some b \<Rightarrow> if fgt (hit_pident h) (hit_pident b) then Some h else Some b)"

definition track_ls :: "hit option \<Rightarrow> hit \<Rightarrow> hit option" where
  "track_ls best h =
     (case best of None \<Rightarrow> Some h
      | Some b \<Rightarrow>
          if hit_ls h < hit_ls b \<or> (hit_ls h = hit_ls b \<and> fgt (hit_pident h) (hit_pident b))
          then Some h else Some b)"

text \<open>
  The loop \<open>for row in reader\<close>, from the state \<open>(best_by_ls, best_by_pident)\<close>: an
  exception in a row leaves the loop.
\<close>

fun scan_rows ::
  "(string \<Rightarrow> int option) \<Rightarrow> (string \<Rightarrow> pyfloat option) \<Rightarrow> hit option \<times> hit option \<Rightarrow>
   string list list \<Rightarrow> error + (hit option \<times> hit option)" where
  "scan_rows pint pfloat st [] = Inr st"
| "scan_rows pint pfloat (best_by_ls, best_by_pident) (row # rows) =
     (case parse_row pint pfloat row of
        Inl e \<Rightarrow> Inl e
      | Inr h \<Rightarrow>
          scan_rows pint pfloat (track_ls best_by_ls h, track_pident best_by_pident h) rows)"

text \<open>
  \<open>_find_best_allele\<close>. The test \<open>Path(blast_file).exists()\<close> stands before the \<open>try\<close>:
  an \<open>OSError\<close> that it raises leaves the function. An exception inside the \<open>try\<close> is
  logged as an error and the function falls through to \<open>return None\<close>.
\<close>

definition find_best_allele ::
  "(string \<Rightarrow> int option) \<Rightarrow> (string \<Rightarrow> pyfloat option) \<Rightarrow> filesystem \<Rightarrow> string \<Rightarrow>
   string option outcome" where
  "find_best_allele pint pfloat fs blast_file =
     (case fs blast_file of
        Stat_error \<Rightarrow> raise OSError
      | Missing \<Rightarrow> ok None
      | Unreadable \<Rightarrow> log_then (Error_processing blast_file) (ok None)
      | Rows rows \<Rightarrow>
          (case scan_rows pint pfloat (None, None) (dict_rows rows) of
             Inl e \<Rightarrow> log_then (Error_processing blast_file) (ok None)
           | Inr (Some best_by_ls, Some best_by_pident) \<Rightarrow>
               (Inr (Some (hit_allele best_by_ls)),
                if hit_allele best_by_ls \<noteq> hit_allele best_by_pident
                then [Different_alleles blast_file, Best_LS best_by_ls, Best_ID best_by_pident]
                else [])
           | Inr _ \<Rightarrow> ok None))"

text \<open>When the loop replaces \<open>best_by_ls = b\<close> by the tuple \<open>h\<close> of the current row.\<close>

definition beats :: "hit \<Rightarrow> hit \<Rightarrow> bool" where
  "beats h b = (hit_ls h < hit_ls b \<or> (hit_ls h = hit_ls b \<and> fgt (hit_pident h) (hit_pident b)))"

section \<open>Catalog loaders: \<open>_get_fasta_files\<close>, \<open>_load_alleles\<close>, \<open>_load_genomes\<close>\<close>

text \<open>
  What \<open>list(SeqIO.parse(filepath, 'fasta'))\<close> gives for a file: an exception, or the
  records, of which the script reads the number and the \<open>id\<close> of the first.
\<close>

datatype parse_result = Parse_error | Seqs "string list"

record fasta_file =
  fpath :: string
  fname :: string
  fstem :: string
  parsed :: parse_result

text \<open>
  An entry of a directory, with \<open>file_path.is_file()\<close> and \<open>file_path.suffix.lower()\<close>;
  a directory that does not exist, one whose listing raises, or its entries in the order
  of \<open>iterdir()\<close>.
\<close>

record dir_entry =
  is_file :: bool
  suffix_lower :: string
  entry :: fasta_file

datatype directory = No_directory | Not_listable | Listing "dir_entry list"

definition extensions :: "string list" where
  "extensions = [''.fasta'', ''.fas'', ''.fna'', ''.fa'']"

definition get_fasta_files :: "directory \<Rightarrow> error + fasta_file list" where
  "get_fasta_files d =
     (case d of
        No_directory \<Rightarrow> Inl FileNotFoundError
      | Not_listable \<Rightarrow> Inl OSError
      | Listing es \<Rightarrow>
          Inr (map entry (filter (\<lambda>e. is_file e \<and> suffix_lower e \<in> set extensions) es)))"

text \<open>The allele catalog: gene name to (path of the locus file, number of sequences).\<close>

type_synonym alleles = "(string \<times> (string \<times> nat)) list"

text \<open>The loop \<open>for filepath in fasta_files\<close> of \<open>_load_alleles\<close>.\<close>

fun load_alleles_loop :: "alleles \<Rightarrow> fasta_file list \<Rightarrow> alleles outcome" where
  "load_alleles_loop alleles [] = ok alleles"
| "load_alleles_loop alleles (f # fs) =
     (case parsed f of
        Parse_error \<Rightarrow> fatal (Could_not_process (fpath f))
      | Seqs [] \<Rightarrow> load_alleles_loop alleles fs
      | Seqs (s # ss) \<Rightarrow>
          (let gene_name = hd (split_on CHR ''_'' s) in
           log_then (Loaded_alleles (length (s # ss)) gene_name (fname f))
             (load_alleles_loop
                (AList.update gene_name (fpath f, length (s # ss)) alleles) fs)))"

definition load_alleles :: "directory \<Rightarrow> alleles outcome" where
  "load_alleles indir =
     log_then Processing_allele_directory
       (case get_fasta_files indir of
          Inl e \<Rightarrow> fatal (Could_not_identify ''indirname'')
        | Inr fasta_files \<Rightarrow>
            and_then (load_alleles_loop [] fasta_files)
              (\<lambda>alleles. log_then (Found_genes (length alleles)) (ok alleles)))"

text \<open>\<open>s.replace(a, b)\<close> for one-character strings \<open>a\<close> and \<open>b\<close>.\<close>

definition replace_char :: "char \<Rightarrow> char \<Rightarrow> string \<Rightarrow> string" where
  "replace_char a b s = map (\<lambda>c. if c = a then b else c) s"

definition isolate_id_of :: "fasta_file \<Rightarrow> string" where
  "isolate_id_of f = replace_char CHR '' '' CHR ''_'' (replace_char CHR ''|'' CHR ''_'' (fstem f))"

text \<open>The genome catalog: isolate identifier to path of the genome file.\<close>

type_synonym genomes = "(string \<times> string) list"

fun load_genomes_loop :: "genomes \<Rightarrow> fasta_file list \<Rightarrow> genomes outcome" where
  "load_genomes_loop genomes [] = ok genomes"
| "load_genomes_loop genomes (f # fs) =
     (case parsed f of
        Parse_error \<Rightarrow> fatal (Could_not_process (fpath f))
      | Seqs [] \<Rightarrow> load_genomes_loop genomes fs
      | Seqs (s # ss) \<Rightarrow>
          (let isolate_id = isolate_id_of f in
           log_then (Loaded_genome isolate_id (fname f))
             (load_genomes_loop (AList.update isolate_id (fpath f) genomes) fs)))"

definition load_genomes :: "directory \<Rightarrow> genomes outcome" where
  "load_genomes genomedir =
     log_then Processing_genome_directory
       (case get_fasta_files genomedir of
          Inl e \<Rightarrow> fatal (Could_not_identify ''genomedir'')
        | Inr fasta_files \<Rightarrow>
            and_then (load_genomes_loop [] fasta_files)
              (\<lambda>genomes. log_then (Found_genomes (length genomes)) (ok genomes)))"

text \<open>
  The gene name a locus file is filed under: the first underscore-separated token of the
  \<open>id\<close> of its first sequence; none for a file without sequences.
\<close>

definition gene_name_of :: "fasta_file \<Rightarrow> string option" where
  "gene_name_of f =
     (case parsed f of
        Seqs (s # ss) \<Rightarrow> Some (hd (split_on CHR ''_'' s))
      | _ \<Rightarrow> None)"

definition sequence_count :: "fasta_file \<Rightarrow> nat" where
  "sequence_count f = (case parsed f of Seqs ss \<Rightarrow> length ss | Parse_error \<Rightarrow> 0)"

definition has_sequences :: "fasta_file \<Rightarrow> bool" where
  "has_sequences f = (case parsed f of Seqs (s # ss) \<Rightarrow> True | _ \<Rightarrow> False)"

text \<open>
  The value \<open>val f\<close> of the last \<open>f\<close> in \<open>files\<close> that satisfies \<open>P\<close>, or \<open>dflt\<close>
  when there is none: what a dictionary holds under a key after a loop has written it
  once for every such \<open>f\<close>, in order.
\<close>

definition latest :: "('a \<Rightarrow> bool) \<Rightarrow> ('a \<Rightarrow> 'b) \<Rightarrow> 'a list \<Rightarrow> 'b option \<Rightarrow> 'b option" where
  "latest P val files dflt = (case find P (rev files) of Some f \<Rightarrow> Some (val f) | None \<Rightarrow> dflt)"

section \<open>Alignment jobs: \<open>_run_blast_analysis\<close>, \<open>_run_parallel_commands\<close>\<close>

text \<open>
  A command line is determined by its query file, its subject file and its output file.
  What \<open>result.get()\<close> gives for a job: the completed process, with its return code and
  its standard error, or an exception. The worker pool only runs the external tool; what
  the tool leaves on disk is the file system that the later steps read.
\<close>

type_synonym command = "string \<times> string \<times> string"

datatype job_result = Completed int string | Job_raised

text \<open>The loop \<open>for i, result in enumerate(results)\<close>, from index \<open>i\<close>.\<close>

fun wait_for_jobs :: "bool \<Rightarrow> nat \<Rightarrow> job_result list \<Rightarrow> log_event list" where
  "wait_for_jobs verbose i [] = []"
| "wait_for_jobs verbose i (r # rs) =
     (case r of
        Job_raised \<Rightarrow> [Error_in_command (i + 1)]
      | Completed returncode stderr \<Rightarrow>
          if returncode \<noteq> 0 then [Command_failed (i + 1) stderr]
          else if verbose then [Command_completed (i + 1)]
          else [])
     @ wait_for_jobs verbose (i + 1) rs"

definition run_parallel_commands :: "bool \<Rightarrow> job_result list \<Rightarrow> unit outcome" where
  "run_parallel_commands verbose results =
     (Inr (), [Running_jobs (length results)] @ wait_for_jobs verbose 0 results
              @ [All_jobs_completed])"

text \<open>
  \<open>str(Path(outdirname) / f"{allele_name}_vs_{genome_id}.tab")\<close>, for names without a
  path separator.
\<close>

definition output_file :: "string \<Rightarrow> string \<Rightarrow> string \<Rightarrow> string" where
  "output_file outdirname allele_name genome_id =
     outdirname @ ''/'' @ allele_name @ ''_vs_'' @ genome_id @ ''.tab''"

text \<open>The two nested loops of \<open>_run_blast_analysis\<close>, one element per pass of the body.\<close>

definition job_matrix ::
  "string \<Rightarrow> alleles \<Rightarrow> genomes \<Rightarrow> ((string \<times> string) \<times> command) list" where
  "job_matrix outdirname alleles genomes =
     concat (map (\<lambda>(allele_name, (allele_file, n)).
        map (\<lambda>(genome_id, genome_file).
           ((genome_id, allele_name),
            (allele_file, genome_file, output_file outdirname allele_name genome_id)))
          genomes) alleles)"

type_synonym blast_files = "((string \<times> string) \<times> string) list"

definition run_blast_analysis ::
  "bool \<Rightarrow> (command \<Rightarrow> job_result) \<Rightarrow> string \<Rightarrow> alleles \<Rightarrow> genomes \<Rightarrow> blast_files outcome" where
  "run_blast_analysis verbose tool outdirname alleles genomes =
     (let jobs = job_matrix outdirname alleles genomes;
          commands = map snd jobs;
          output_files =
            foldl (\<lambda>d (key, (q, s, out)). AList.update key out d) [] jobs
      in log_then Running_BLAST
           (log_then (Generated_commands (length commands))
              (and_then (run_parallel_commands verbose (map tool commands))
                 (\<lambda>u. ok output_files))))"

section \<open>The results table: \<open>_process_blast_results\<close>\<close>

text \<open>
  A pandas DataFrame of dtype object, as far as the script uses one: row labels, column
  labels and a value for every pair of labels. \<open>NaN_val\<close> is the value of a cell that
  was never written; \<open>pd.notna\<close> is false for it and for \<open>None\<close>.
\<close>

datatype dfval = NaN_val | None_val | Int_val int | Str_val string

record dataframe =
  df_index :: "string list"
  df_columns :: "string list"
  df_cells :: "string \<times> string \<Rightarrow> dfval"

definition new_dataframe :: "string list \<Rightarrow> string list \<Rightarrow> dataframe" where
  "new_dataframe idx cols = \<lparr>df_index = idx, df_columns = cols, df_cells = (\<lambda>k. NaN_val)\<rparr>"

text \<open>\<open>df.loc[r, c] = v\<close>; a label that the table does not have yet is added.\<close>

definition set_loc :: "dataframe \<Rightarrow> string \<Rightarrow> string \<Rightarrow> dfval \<Rightarrow> dataframe" where
  "set_loc df r c v =
     \<lparr>df_index = (if r \<in> set (df_index df) then df_index df else df_index df @ [r]),
      df_columns = (if c \<in> set (df_columns df) then df_columns df else df_columns df @ [c]),
      df_cells = (df_cells df)((r, c) := v)\<rparr>"

definition notna :: "dfval \<Rightarrow> bool" where
  "notna v = (v \<noteq> NaN_val \<and> v \<noteq> None_val)"

text \<open>
  The loop of \<open>_process_blast_results\<close> over \<open>blast_files.items()\<close>. Nothing in the
  function catches an exception: neither the \<open>OSError\<close> that leaves
  \<open>_find_best_allele\<close> nor the \<open>ValueError\<close> of \<open>int(best_allele)\<close> for a token that is
  not an integer literal.
\<close>

fun process_loop ::
  "(string \<Rightarrow> int option) \<Rightarrow> (string \<Rightarrow> pyfloat option) \<Rightarrow> filesystem \<Rightarrow>
   dataframe \<Rightarrow> blast_files \<Rightarrow> dataframe outcome" where
  "process_loop pint pfloat fs df [] = ok df"
| "process_loop pint pfloat fs df (((genome_id, allele_name), blast_file) # rest) =
     and_then (find_best_allele pint pfloat fs blast_file)
       (\<lambda>best_allele.
          case best_allele of
            Some a \<Rightarrow>
              (case pint a of
                 None \<Rightarrow> raise ValueError
               | Some n \<Rightarrow>
                   process_loop pint pfloat fs (set_loc df genome_id allele_name (Int_val n)) rest)
          | None \<Rightarrow>
              process_loop pint pfloat fs (set_loc df genome_id allele_name None_val) rest)"

definition process_blast_results ::
  "(string \<Rightarrow> int option) \<Rightarrow> (string \<Rightarrow> pyfloat option) \<Rightarrow> filesystem \<Rightarrow>
   alleles \<Rightarrow> genomes \<Rightarrow> blast_files \<Rightarrow> dataframe outcome" where
  "process_blast_results pint pfloat fs alleles genomes blast_files =
     process_loop pint pfloat fs
       (new_dataframe (map fst genomes) (map fst alleles @ [''ST''])) blast_files"


section \<open>Profile resolver: \<open>_load_mlst_profiles\<close>, \<open>_assign_sequence_types\<close>\<close>

text \<open>\<open>sep.join(xs)\<close> and \<open>str(n)\<close> for an integer \<open>n\<close>.\<close>

fun join :: "string \<Rightarrow> string list \<Rightarrow> string" where
  "join sep [] = []"
| "join sep [x] = x"
| "join sep (x # y # ys) = x @ sep @ join sep (y # ys)"

definition digit_char :: "nat \<Rightarrow> char" where
  "digit_char d = char_of (48 + d)"

function str_nat :: "nat \<Rightarrow> string" where
  "str_nat n = (if n < 10 then [digit_char n] else str_nat (n div 10) @ [digit_char (n mod 10)])"
  by pat_completeness auto
termination
  by (relation "measure id") auto

declare str_nat.simps [simp del]

definition str_int :: "int \<Rightarrow> string" where
  "str_int i = (if i < 0 then CHR ''-'' # str_nat (nat (- i)) else str_nat (nat i))"

text \<open>
  A list comprehension whose element expression can raise: the first exception leaves it.
\<close>

fun comprehension :: "('a \<Rightarrow> error + 'b) \<Rightarrow> 'a list \<Rightarrow> error + 'b list" where
  "comprehension f [] = Inr []"
| "comprehension f (x # xs) =
     (case f x of
        Inl e \<Rightarrow> Inl e
      | Inr y \<Rightarrow> (case comprehension f xs of Inl e \<Rightarrow> Inl e | Inr ys \<Rightarrow> Inr (y # ys)))"

text \<open>
  A row of \<open>csv.DictReader\<close> without given field names: the keys are the fields of the
  first row of the file, and \<open>None\<close> (the \<open>restkey\<close>) for the surplus fields of a longer
  row; a field that a shorter row lacks is \<open>None\<close> (the \<open>restval\<close>).
\<close>

type_synonym pykey = "string option"

datatype cell = Text string | Restval | Restkey "string list"

type_synonym pydict = "(pykey \<times> cell) list"

definition dict_reader_row :: "string list \<Rightarrow> string list \<Rightarrow> pydict" where
  "dict_reader_row fieldnames row =
     (let d = foldl (\<lambda>d (k, v). AList.update k v d) []
                (zip (map Some fieldnames) (map Text row));
          lf = length fieldnames;
          lr = length row
      in if lf < lr then AList.update None (Restkey (drop lf row)) d
         else if lr < lf
         then foldl (\<lambda>d k. AList.update (Some k) Restval d) d (drop lr fieldnames)
         else d)"

definition getitem :: "pydict \<Rightarrow> pykey \<Rightarrow> error + cell" where
  "getitem d k = (case map_of d k of None \<Rightarrow> Inl KeyError | Some v \<Rightarrow> Inr v)"

text \<open>
  \<open>str(v)\<close> for a value of such a row; the text of a list of strings is left to the
  parameter \<open>repr\<close>.
\<close>

definition str_cell :: "(string list \<Rightarrow> string) \<Rightarrow> cell \<Rightarrow> string" where
  "str_cell repr v = (case v of Text s \<Rightarrow> s | Restval \<Rightarrow> ''None'' | Restkey l \<Rightarrow> repr l)"

text \<open>
  \<open>sorted(ks)\<close> for distinct keys: comparing \<open>None\<close> with a string raises \<open>TypeError\<close>, and
  a list of two or more elements is not sorted without comparing each of them.
\<close>

definition py_sorted :: "pykey list \<Rightarrow> error + pykey list" where
  "py_sorted ks =
     (if None \<in> set ks then (if 2 \<le> length ks then Inl TypeError else Inr ks)
      else Inr (map Some (sort (map the ks))))"

definition allele_profile_of_row ::
  "(string list \<Rightarrow> string) \<Rightarrow> pykey list \<Rightarrow> pydict \<Rightarrow> error + string" where
  "allele_profile_of_row repr genes row =
     (case comprehension
             (\<lambda>gene. case getitem row gene of Inl e \<Rightarrow> Inl e | Inr v \<Rightarrow> Inr (str_cell repr v))
             genes of
        Inl e \<Rightarrow> Inl e
      | Inr parts \<Rightarrow> Inr (join '','' parts))"

type_synonym profiles = "(string \<times> cell) list"

text \<open>
  The statement \<open>if genes is None: ...\<close> at the head of the loop body of
  \<open>_load_mlst_profiles\<close>: the gene order is taken from the keys of the first row.
\<close>

definition genes_of_row :: "pykey list option \<Rightarrow> pydict \<Rightarrow> pykey list outcome" where
  "genes_of_row genes row =
     (case genes of
        None \<Rightarrow>
          (case py_sorted
                  (filter (\<lambda>k. k \<noteq> Some ''ST'' \<and> k \<noteq> Some ''clonal_complex'') (map fst row)) of
             Inl e \<Rightarrow> raise e
           | Inr sorted_genes \<Rightarrow> log_then Gene_order (ok sorted_genes))
      | Some gs \<Rightarrow> ok gs)"

text \<open>The loop \<open>for row in reader\<close> of \<open>_load_mlst_profiles\<close>, from \<open>(genes, profiles)\<close>.\<close>

fun profiles_loop ::
  "(string list \<Rightarrow> string) \<Rightarrow> pykey list option \<times> profiles \<Rightarrow> pydict list \<Rightarrow>
   (pykey list option \<times> profiles) outcome" where
  "profiles_loop repr st [] = ok st"
| "profiles_loop repr (genes, profiles) (row # rows) =
     and_then (genes_of_row genes row)
       (\<lambda>gs. case allele_profile_of_row repr gs row of
                Inl e \<Rightarrow> raise e
              | Inr allele_profile \<Rightarrow>
                  (case getitem row (Some ''ST'') of
                     Inl e \<Rightarrow> raise e
                   | Inr st \<Rightarrow>
                       profiles_loop repr
                         (Some gs, AList.update allele_profile st profiles) rows))"

text \<open>
  \<open>_load_mlst_profiles\<close>: every exception of the \<open>try\<close> block is logged and followed by
  \<open>sys.exit(1)\<close>. The first row that \<open>csv.reader\<close> yields gives the field names; of the
  others, those equal to \<open>[]\<close> are skipped.
\<close>

definition load_mlst_profiles ::
  "(string list \<Rightarrow> string) \<Rightarrow> filesystem \<Rightarrow> string \<Rightarrow> (pykey list option \<times> profiles) outcome" where
  "load_mlst_profiles repr fs profile_path =
     log_then Loading_profiles
       (case fs profile_path of
          Stat_error \<Rightarrow> fatal Error_loading_profiles
        | Missing \<Rightarrow> fatal Error_loading_profiles
        | Unreadable \<Rightarrow> fatal Error_loading_profiles
        | Rows [] \<Rightarrow> log_then (Loaded_profiles 0) (ok (None, []))
        | Rows (fieldnames # rest) \<Rightarrow>
            (let r = profiles_loop repr (None, [])
                       (map (dict_reader_row fieldnames) (dict_rows rest))
             in case fst r of
                  Inl e \<Rightarrow> (Inl SystemExit, snd r @ [Error_loading_profiles])
                | Inr (genes, profiles) \<Rightarrow>
                    (Inr (genes, profiles), snd r @ [Loaded_profiles (length profiles)])))"

text \<open>
  \<open>row[gene]\<close> for the row of an isolate in the table: \<open>KeyError\<close> for a label that is
  not a column. \<open>str(v)\<close> for a value of the table.
\<close>

definition row_getitem :: "dataframe \<Rightarrow> string \<Rightarrow> pykey \<Rightarrow> error + dfval" where
  "row_getitem df isolate_id gene =
     (case gene of
        None \<Rightarrow> Inl KeyError
      | Some g \<Rightarrow>
          if g \<in> set (df_columns df) then Inr (df_cells df (isolate_id, g)) else Inl KeyError)"

definition str_dfval :: "dfval \<Rightarrow> string" where
  "str_dfval v =
     (case v of Int_val n \<Rightarrow> str_int n | Str_val s \<Rightarrow> s | NaN_val \<Rightarrow> ''nan'' | None_val \<Rightarrow> ''None'')"

definition allele_profile_of_isolate ::
  "dataframe \<Rightarrow> string \<Rightarrow> pykey list \<Rightarrow> error + string" where
  "allele_profile_of_isolate df isolate_id genes =
     (case comprehension
             (\<lambda>gene. case row_getitem df isolate_id gene of
                        Inl e \<Rightarrow> Inl e
                      | Inr v \<Rightarrow> Inr (if notna v then str_dfval v else ''NA''))
             genes of
        Inl e \<Rightarrow> Inl e
      | Inr parts \<Rightarrow> Inr (join '','' parts))"

text \<open>\<open>int(st)\<close> for a value of the profile dictionary.\<close>

definition int_of_cell :: "(string \<Rightarrow> int option) \<Rightarrow> cell \<Rightarrow> error + int" where
  "int_of_cell pint st = py_int pint (case st of Text s \<Rightarrow> Some s | _ \<Rightarrow> None)"

text \<open>
  The body of the loop \<open>for isolate_id, row in df.iterrows()\<close> and the loop. Iterating
  over \<open>genes\<close> when no profile row has set it raises \<open>TypeError\<close>.
\<close>

definition assign_isolate ::
  "(string \<Rightarrow> int option) \<Rightarrow> pykey list option \<Rightarrow> profiles \<Rightarrow> dataframe \<Rightarrow> string \<Rightarrow>
   dataframe outcome" where
  "assign_isolate pint genes profiles df isolate_id =
     (case genes of
        None \<Rightarrow> raise TypeError
      | Some gs \<Rightarrow>
          (case allele_profile_of_isolate df isolate_id gs of
             Inl e \<Rightarrow> raise e
           | Inr allele_profile \<Rightarrow>
               log_then (Isolate_alleles isolate_id allele_profile)
                 (case map_of profiles allele_profile of
                    Some st \<Rightarrow>
                      (case int_of_cell pint st of
                         Inl e \<Rightarrow> raise e
                       | Inr n \<Rightarrow>
                           log_then (Assigned_ST allele_profile)
                             (ok (set_loc df isolate_id ''ST'' (Int_val n))))
                  | None \<Rightarrow>
                      log_then (Profile_not_found allele_profile)
                        (ok (set_loc df isolate_id ''ST'' (Str_val ''NEW''))))))"

fun assign_loop ::
  "(string \<Rightarrow> int option) \<Rightarrow> pykey list option \<Rightarrow> profiles \<Rightarrow> dataframe \<Rightarrow> string list \<Rightarrow>
   dataframe outcome" where
  "assign_loop pint genes profiles df [] = ok df"
| "assign_loop pint genes profiles df (isolate_id # rest) =
     and_then (assign_isolate pint genes profiles df isolate_id)
       (\<lambda>df'. assign_loop pint genes profiles df' rest)"

text \<open>
  \<open>df.sort_values(list(genes))\<close>: \<open>TypeError\<close> when \<open>genes\<close> is \<open>None\<close>, \<open>KeyError\<close> for a
  label that is not a column. The order of the rows of the sorted table is not modelled:
  the table is returned with its cells.
\<close>

definition sort_values :: "dataframe \<Rightarrow> pykey list option \<Rightarrow> dataframe outcome" where
  "sort_values df genes =
     (case genes of
        None \<Rightarrow> raise TypeError
      | Some gs \<Rightarrow>
          if \<forall>g\<in>set gs. case g of None \<Rightarrow> False | Some c \<Rightarrow> c \<in> set (df_columns df)
          then ok df else raise KeyError)"

definition assign_sequence_types ::
  "(string \<Rightarrow> int option) \<Rightarrow> (string list \<Rightarrow> string) \<Rightarrow> filesystem \<Rightarrow> string \<Rightarrow>
   dataframe \<Rightarrow> dataframe outcome" where
  "assign_sequence_types pint repr fs profile_path df =
     log_then Assigning_sequence_types
       (and_then (load_mlst_profiles repr fs profile_path)
          (\<lambda>(genes, profiles).
             and_then (assign_loop pint genes profiles df (df_index df))
               (\<lambda>df'. sort_values df' genes)))"

section \<open>The pipeline: \<open>run_analysis\<close>\<close>

record args =
  indirname :: string
  outdirname :: string
  profile :: string
  genomedir :: string
  force :: bool
  verbose :: bool

text \<open>
  What the script finds outside itself: the two input directories, whether the output
  directory exists and whether removing and creating it succeed, what each job of the
  external tool reports, and the files as they are once the jobs have ended.
\<close>

record world =
  allele_dir :: directory
  genome_dir :: directory
  outdir_exists :: bool
  rmtree_ok :: bool
  mkdir_ok :: bool
  tool :: "command \<Rightarrow> job_result"
  disk :: filesystem

fun validate_loop :: "(string \<times> string) list \<Rightarrow> unit outcome" where
  "validate_loop [] = ok ()"
| "validate_loop ((arg_value, arg_name) # rest) =
     (if arg_value = [] then fatal (No_argument arg_name)
      else log_then (Argument arg_name arg_value) (validate_loop rest))"

definition validate_arguments :: "args \<Rightarrow> unit outcome" where
  "validate_arguments a =
     validate_loop [(indirname a, ''input directory''), (outdirname a, ''output directory''),
                    (profile a, ''MLST profile''), (genomedir a, ''genome directory'')]"

definition create_output_directory :: "args \<Rightarrow> world \<Rightarrow> unit outcome" where
  "create_output_directory a w =
     and_then
       (if outdir_exists w
        then (if \<not> force a then fatal Output_directory_exists
              else log_then Removing_directory (if rmtree_ok w then ok () else raise OSError))
        else ok ())
       (\<lambda>u. if mkdir_ok w then log_then Created_directory (ok ())
            else fatal Could_not_create_directory)"

text \<open>
  \<open>run_analysis\<close>. \<open>_write_results\<close> catches every exception of the writers it calls and
  returns nothing; the model returns the table that it is given.
\<close>

definition run_analysis ::
  "(string \<Rightarrow> int option) \<Rightarrow> (string \<Rightarrow> pyfloat option) \<Rightarrow> (string list \<Rightarrow> string) \<Rightarrow>
   args \<Rightarrow> world \<Rightarrow> dataframe outcome" where
  "run_analysis pint pfloat repr a w =
     log_then Analysis_started
       (and_then (validate_arguments a) (\<lambda>u.
        and_then (load_alleles (allele_dir w)) (\<lambda>alleles.
        and_then (load_genomes (genome_dir w)) (\<lambda>genomes.
        and_then (create_output_directory a w) (\<lambda>u.
        and_then (run_blast_analysis (verbose a) (tool w) (outdirname a) alleles genomes)
          (\<lambda>blast_results.
        and_then (process_blast_results pint pfloat (disk w) alleles genomes blast_results)
          (\<lambda>df.
        and_then (assign_sequence_types pint repr (disk w) (profile a) df) (\<lambda>df'.
        log_then Analysis_completed (ok df')))))))))"

section \<open>Notions used in the statements\<close>

text \<open>
  The rows that \<open>csv.DictReader\<close> yields for the profile file, and what the loop of
  \<open>_load_mlst_profiles\<close> writes into \<open>profiles\<close> for one of them: the key and the value of
  its \<open>ST\<close> column, when neither lookup raises.
\<close>

definition profile_table :: "filesystem \<Rightarrow> string \<Rightarrow> pydict list" where
  "profile_table fs profile_path =
     (case fs profile_path of
        Rows (fieldnames # rest) \<Rightarrow> map (dict_reader_row fieldnames) (dict_rows rest)
      | _ \<Rightarrow> [])"

definition row_entry ::
  "(string list \<Rightarrow> string) \<Rightarrow> pykey list \<Rightarrow> pydict \<Rightarrow> (string \<times> cell) option" where
  "row_entry repr gs row =
     (case allele_profile_of_row repr gs row of
        Inl e \<Rightarrow> None
      | Inr k \<Rightarrow> (case getitem row (Some ''ST'') of Inl e \<Rightarrow> None | Inr st \<Rightarrow> Some (k, st)))"

text \<open>
  What the loop of \<open>_assign_sequence_types\<close> writes into the \<open>ST\<close> column for a key.
\<close>

definition st_value :: "(string \<Rightarrow> int option) \<Rightarrow> profiles \<Rightarrow> string \<Rightarrow> error + dfval" where
  "st_value pint profiles key =
     (case map_of profiles key of
        Some st \<Rightarrow> (case int_of_cell pint st of Inl e \<Rightarrow> Inl e | Inr n \<Rightarrow> Inr (Int_val n))
      | None \<Rightarrow> Inr (Str_val ''NEW''))"

text \<open>Two tables that differ at most in their \<open>ST\<close> column.\<close>

definition same_genes :: "dataframe \<Rightarrow> dataframe \<Rightarrow> bool" where
  "same_genes df df' =
     ((\<forall>r c. c \<noteq> ''ST'' \<longrightarrow> df_cells df' (r, c) = df_cells df (r, c)) \<and>
      (\<forall>c. c \<noteq> ''ST'' \<longrightarrow> (c \<in> set (df_columns df') \<longleftrightarrow> c \<in> set (df_columns df))))"

text \<open>The text that the key of an isolate has for a gene that is a column of the table.\<close>

definition key_part :: "dataframe \<Rightarrow> string \<Rightarrow> pykey \<Rightarrow> string" where
  "key_part df i g =
     (case g of
        None \<Rightarrow> []
      | Some c \<Rightarrow> if notna (df_cells df (i, c)) then str_dfval (df_cells df (i, c)) else ''NA'')"


section \<open>Concrete inputs\<close>

definition fs_gapped :: filesystem where
  "fs_gapped p =
     (if p = ''out/abc_vs_G1.tab''
      then Rows [[''abc_1'', ''G1'', ''100'', ''500'', ''500'', ''3'', ''0''],
                 [''abc_2'', ''G1'', ''99'', ''500'', ''499'', ''0'', ''5'']]
      else Missing)"


definition fs_empty_output :: filesystem where
  "fs_empty_output p = (if p = ''out/xyz_vs_G2.tab'' then Rows [] else Missing)"

definition fs_tied :: filesystem where
  "fs_tied p =
     (if p = ''out/abc_vs_G1.tab''
      then Rows [[''abc_3'', ''G1'', ''100'', ''500'', ''490'', ''0'', ''0''],
                 [''abc_7'', ''G1'', ''100'', ''500'', ''500'', ''0'', ''0''],
                 [''abc_9'', ''G1'', ''100'', ''500'', ''500'', ''0'', ''0'']]
      else Missing)"

text \<open>
  A path whose file name is longer than the 255 bytes that the file system allows, and a
  file that exists and cannot be opened.
\<close>

definition fs_name_too_long :: filesystem where
  "fs_name_too_long p =
     (if p = output_file ''out'' ''abc'' (replicate 250 CHR ''G'') then Stat_error
      else if p = ''out/abc_vs_G2.tab'' then Unreadable
      else Missing)"

text \<open>
  The numbers that the fields of a row denote for the sample instances of \<open>int(...)\<close> and
  \<open>float(...)\<close>.
\<close>

definition int_field :: "nat \<Rightarrow> string list \<Rightarrow> int" where
  "int_field i r = (case digits_int (r ! i) of Some n \<Rightarrow> n | None \<Rightarrow> 0)"

definition float_field :: "nat \<Rightarrow> string list \<Rightarrow> pyfloat" where
  "float_field i r = (case digits_float (r ! i) of Some x \<Rightarrow> x | None \<Rightarrow> NaN)"

text \<open>Directories of genome files and of locus files.\<close>

definition genome_file :: "string \<Rightarrow> string \<Rightarrow> fasta_file" where
  "genome_file stem ext =
     \<lparr>fpath = ''genomes/'' @ stem @ ext, fname = stem @ ext, fstem = stem,
      parsed = Seqs [''contig1'']\<rparr>"

definition colliding_genomes :: directory where
  "colliding_genomes =
     Listing [\<lparr>is_file = True, suffix_lower = ''.fasta'', entry = genome_file ''a|b'' ''.fasta''\<rparr>,
              \<lparr>is_file = True, suffix_lower = ''.fasta'', entry = genome_file ''a b'' ''.fasta''\<rparr>]"

definition locus_file :: "string \<Rightarrow> string list \<Rightarrow> fasta_file" where
  "locus_file name ids =
     \<lparr>fpath = ''alleles/'' @ name @ ''.fas'', fname = name @ ''.fas'', fstem = name,
      parsed = Seqs ids\<rparr>"

definition duplicate_loci :: directory where
  "duplicate_loci =
     Listing [\<lparr>is_file = True, suffix_lower = ''.fas'', entry = locus_file ''abc_old'' [''abc_1'']\<rparr>,
              \<lparr>is_file = True, suffix_lower = ''.fas'', entry = locus_file ''xyz'' [''xyz_1'', ''xyz_2'']\<rparr>,
              \<lparr>is_file = False, suffix_lower = ''.fas'', entry = locus_file ''dir'' []\<rparr>,
              \<lparr>is_file = True, suffix_lower = ''.txt'', entry = locus_file ''notes'' []\<rparr>,
              \<lparr>is_file = True, suffix_lower = ''.fas'', entry = locus_file ''abc_new'' [''abc_1'', ''abc_2'', ''abc_3'']\<rparr>]"





definition no_repr :: "string list \<Rightarrow> string" where
  "no_repr l = []"

definition profile_header :: "string list" where
  "profile_header = [''ST'', ''abc'', ''xyz'', ''clonal_complex'']"

definition fs_profiles_repeated :: filesystem where
  "fs_profiles_repeated p =
     (if p = ''profiles.tsv''
      then Rows [profile_header,
                 [''10'', ''2'', ''7'', ''CC1''],
                 [''11'', ''2'', ''7'', ''CC2''],
                 [''12'', ''3'', ''NA'', []]]
      else Missing)"

definition fs_header_only :: filesystem where
  "fs_header_only p = (if p = ''profiles.tsv'' then Rows [profile_header] else Missing)"

definition fs_profiles :: filesystem where
  "fs_profiles p =
     (if p = ''profiles.tsv''
      then Rows [profile_header,
                 [''10'', ''2'', ''7'', ''CC1''],
                 [''20'', ''3'', ''5'', ''CC2'']]
      else Missing)"

definition typed_table :: dataframe where
  "typed_table =
     \<lparr>df_index = [''G1'', ''G2''], df_columns = [''abc'', ''xyz'', ''ST''],
      df_cells = (\<lambda>k. if k = (''G1'', ''abc'') then Int_val 2
                       else if k = (''G1'', ''xyz'') then Int_val 7
                       else if k = (''G2'', ''abc'') then Int_val 3
                       else if k = (''G2'', ''xyz'') then None_val
                       else NaN_val)\<rparr>"

definition sample_args :: args where
  "sample_args =
     \<lparr>indirname = ''alleles'', outdirname = ''out'', profile = ''profiles.tsv'',
      genomedir = ''genomes'', force = False, verbose = False\<rparr>"

definition empty_loci :: directory where
  "empty_loci =
     Listing [\<lparr>is_file = True, suffix_lower = ''.fas'', entry = locus_file ''abc'' []\<rparr>,
              \<lparr>is_file = True, suffix_lower = ''.fas'', entry = locus_file ''xyz'' []\<rparr>]"

definition one_genome :: directory where
  "one_genome =
     Listing [\<lparr>is_file = True, suffix_lower = ''.fasta'', entry = genome_file ''G1'' ''.fasta''\<rparr>]"

definition world_without_loci :: "filesystem \<Rightarrow> world" where
  "world_without_loci fs =
     \<lparr>allele_dir = empty_loci, genome_dir = one_genome, outdir_exists = False,
      rmtree_ok = True, mkdir_ok = True, tool = (\<lambda>c. Completed 0 []), disk = fs\<rparr>"

definition fs_profile_without_loci :: filesystem where
  "fs_profile_without_loci p =
     (if p = ''profiles.tsv'' then Rows [[''ST''], [''1'']] else Missing)"

section \<open>Basic facts\<close>

lemma find_append_case:
  "find P (xs @ ys) = (case find P xs of None \<Rightarrow> find P ys | Some x \<Rightarrow> Some x)"
  by (induction xs) auto

lemma find_rev_Cons:
  "find P (rev (x # xs)) =
     (case find P (rev xs) of Some y \<Rightarrow> Some y | None \<Rightarrow> if P x then Some x else None)"
  by (simp add: find_append_case split: option.splits)

lemma fst_log_then: "fst (log_then e m) = fst m"
  by (simp add: log_then_def)

lemma snd_log_then: "snd (log_then e m) = e # snd m"
  by (simp add: log_then_def)

lemma latest_Nil: "latest P val [] d = d"
  by (simp add: latest_def)

lemma latest_Cons:
  "latest P val (f # fs) d = latest P val fs (if P f then Some (val f) else d)"
  unfolding latest_def find_rev_Cons by (simp split: option.splits)

lemma fst_and_then_Inr:
  "fst m = Inr x \<Longrightarrow> fst (and_then m f) = fst (f x)"
  by (simp add: and_then_def)

lemma fst_and_then_Inl:
  "fst m = Inl e \<Longrightarrow> fst (and_then m f) = Inl e"
  by (simp add: and_then_def)


lemma fst_ok: "fst (ok x) = Inr x"
  by (simp add: ok_def)

lemma fst_raise: "fst (raise e) = Inl e"
  by (simp add: raise_def)

lemma fst_fatal: "fst (fatal e) = Inl SystemExit"
  by (simp add: fatal_def)

section \<open>The best-match selector\<close>

lemma split_on_nonempty: "split_on c s \<noteq> []"
  by (induction s) auto

lemma fgt_trans: "fgt a b \<Longrightarrow> fgt b c \<Longrightarrow> fgt a c"
  by (cases a; cases b; cases c) auto

lemma fgt_total: "a \<noteq> NaN \<Longrightarrow> b \<noteq> NaN \<Longrightarrow> fgt a b \<or> a = b \<or> fgt b a"
  by (cases a; cases b) auto

lemma fgt_irrefl: "\<not> fgt a a"
  by (cases a) auto

lemma fgt_asym: "fgt a b \<Longrightarrow> \<not> fgt b a"
  by (cases a; cases b) auto

lemma beats_trans: "beats a b \<Longrightarrow> beats b c \<Longrightarrow> beats a c"
  unfolding beats_def using fgt_trans by force

lemma track_ls_beats: "track_ls (Some b) h = Some (if beats h b then h else b)"
  by (simp add: track_ls_def beats_def)

lemma scan_rows_parsed:
  "map (parse_row pint pfloat) rows = map Inr hits \<Longrightarrow>
   scan_rows pint pfloat (bl, bp) rows = Inr (foldl track_ls bl hits, foldl track_pident bp hits)"
proof (induction rows arbitrary: hits bl bp)
  case Nil
  then show ?case by simp
next
  case (Cons r rows)
  then obtain h hs where hh: "hits = h # hs" by (cases hits) auto
  with Cons.prems have p: "parse_row pint pfloat r = Inr h"
    and m: "map (parse_row pint pfloat) rows = map Inr hs" by auto
  show ?case using Cons.IH[OF m] by (simp add: hh p)
qed

lemma scan_rows_failed:
  "\<exists>r\<in>set rows. \<exists>e. parse_row pint pfloat r = Inl e \<Longrightarrow>
   \<exists>e. scan_rows pint pfloat st rows = Inl e"
proof (induction rows arbitrary: st)
  case Nil
  then show ?case by simp
next
  case (Cons r rows)
  obtain bl bp where st: "st = (bl, bp)" by (cases st)
  show ?case
  proof (cases "parse_row pint pfloat r")
    case (Inl e)
    then show ?thesis by (simp add: st)
  next
    case (Inr h)
    with Cons.prems have "\<exists>r\<in>set rows. \<exists>e. parse_row pint pfloat r = Inl e" by auto
    from Cons.IH[OF this] show ?thesis by (simp add: st Inr)
  qed
qed

lemma foldl_track_ls_Some:
  "\<exists>r. foldl track_ls (Some b) hits = Some r \<and> r \<in> set (b # hits)"
proof (induction hits arbitrary: b)
  case Nil show ?case by simp
next
  case (Cons h hs)
  from Cons.IH[of "if beats h b then h else b"] show ?case
    by (auto simp: track_ls_beats split: if_splits)
qed

lemma foldl_track_ls_stays:
  "\<forall>x\<in>set hits. \<not> beats x b \<Longrightarrow> foldl track_ls (Some b) hits = Some b"
  by (induction hits) (auto simp: track_ls_beats)

lemma foldl_track_ls_None_in:
  assumes "hits \<noteq> []"
  shows "\<exists>r\<in>set hits. foldl track_ls None hits = Some r"
proof -
  from assms obtain h hs where hh: "hits = h # hs" by (cases hits) auto
  from foldl_track_ls_Some[of h hs] obtain r where
    "foldl track_ls (Some h) hs = Some r" "r \<in> set (h # hs)" by blast
  then show ?thesis by (auto simp: hh track_ls_def)
qed

lemma foldl_track_ls_first:
  assumes "\<forall>x\<in>set pre. beats h x" "\<forall>x\<in>set post. \<not> beats x h"
  shows "foldl track_ls None (pre @ h # post) = Some h"
proof -
  have "track_ls (foldl track_ls None pre) h = Some h"
  proof (cases "pre = []")
    case True
    then show ?thesis by (simp add: track_ls_def)
  next
    case False
    from foldl_track_ls_None_in[OF False] obtain r where
      "r \<in> set pre" "foldl track_ls None pre = Some r" by blast
    then show ?thesis using assms(1) by (simp add: track_ls_beats)
  qed
  then show ?thesis using foldl_track_ls_stays[OF assms(2)] by simp
qed

lemma foldl_track_ls_snoc: "foldl track_ls best (hits @ [h]) = track_ls (foldl track_ls best hits) h"
  by simp

lemma foldl_track_ls_inv:
  assumes "hits \<noteq> []"
  shows "\<exists>b\<in>set hits. foldl track_ls None hits = Some b \<and>
           (\<forall>h\<in>set hits. hit_ls b \<le> hit_ls h \<and>
              (hit_ls h = hit_ls b \<longrightarrow> \<not> fgt (hit_pident h) (hit_pident b)))"
  using assms
proof (induction hits rule: rev_induct)
  case Nil
  then show ?case by simp
next
  case (snoc x xs)
  show ?case
  proof (cases "xs = []")
    case True
    then show ?thesis by (simp add: track_ls_def fgt_irrefl)
  next
    case False
    from snoc.IH[OF False] obtain b where b: "b \<in> set xs" "foldl track_ls None xs = Some b"
      and m: "\<forall>h\<in>set xs. hit_ls b \<le> hit_ls h \<and>
              (hit_ls h = hit_ls b \<longrightarrow> \<not> fgt (hit_pident h) (hit_pident b))"
      by blast
    have f: "foldl track_ls None (xs @ [x]) = Some (if beats x b then x else b)"
      by (simp add: b(2) track_ls_beats)
    show ?thesis
    proof (cases "beats x b")
      case True
      have "\<forall>h\<in>set (xs @ [x]). hit_ls x \<le> hit_ls h \<and>
              (hit_ls h = hit_ls x \<longrightarrow> \<not> fgt (hit_pident h) (hit_pident x))"
      proof
        fix h assume h: "h \<in> set (xs @ [x])"
        show "hit_ls x \<le> hit_ls h \<and> (hit_ls h = hit_ls x \<longrightarrow> \<not> fgt (hit_pident h) (hit_pident x))"
        proof (cases "h = x")
          case True
          then show ?thesis by (simp add: fgt_irrefl)
        next
          case False
          with h have hx: "h \<in> set xs" by simp
          with m have 1: "hit_ls b \<le> hit_ls h"
            and 2: "hit_ls h = hit_ls b \<longrightarrow> \<not> fgt (hit_pident h) (hit_pident b)" by simp_all
          from True have 3: "hit_ls x < hit_ls b \<or>
              (hit_ls x = hit_ls b \<and> fgt (hit_pident x) (hit_pident b))" by (simp add: beats_def)
          show ?thesis
          proof (intro conjI impI)
            show "hit_ls x \<le> hit_ls h" using 1 3 by auto
          next
            assume e: "hit_ls h = hit_ls x"
            with 1 3 have eb: "hit_ls x = hit_ls b" and g: "fgt (hit_pident x) (hit_pident b)"
              by auto
            show "\<not> fgt (hit_pident h) (hit_pident x)"
            proof
              assume "fgt (hit_pident h) (hit_pident x)"
              from fgt_trans[OF this g] 2 e eb show False by simp
            qed
          qed
        qed
      qed
      with f True show ?thesis by simp
    next
      case False
      then have n: "hit_ls b \<le> hit_ls x"
        "hit_ls x = hit_ls b \<longrightarrow> \<not> fgt (hit_pident x) (hit_pident b)"
        by (auto simp: beats_def)
      have "\<forall>h\<in>set (xs @ [x]). hit_ls b \<le> hit_ls h \<and>
              (hit_ls h = hit_ls b \<longrightarrow> \<not> fgt (hit_pident h) (hit_pident b))"
        using m n by auto
      with f False b(1) show ?thesis by simp
    qed
  qed
qed

lemma track_pident_Some: "track_pident (Some b) h = Some (if fgt (hit_pident h) (hit_pident b) then h else b)"
  by (simp add: track_pident_def)

lemma foldl_track_pident_Some:
  "\<exists>r. foldl track_pident (Some b) hits = Some r \<and> r \<in> set (b # hits)"
proof (induction hits arbitrary: b)
  case Nil show ?case by simp
next
  case (Cons h hs)
  from Cons.IH[of "if fgt (hit_pident h) (hit_pident b) then h else b"] show ?case
    by (auto simp: track_pident_Some split: if_splits)
qed

lemma foldl_track_pident_inv:
  assumes "hits \<noteq> []"
  shows "\<exists>p\<in>set hits. foldl track_pident None hits = Some p \<and>
           (\<forall>h\<in>set hits. \<not> fgt (hit_pident h) (hit_pident p))"
  using assms
proof (induction hits rule: rev_induct)
  case Nil
  then show ?case by simp
next
  case (snoc x xs)
  show ?case
  proof (cases "xs = []")
    case True
    then show ?thesis by (simp add: track_pident_def fgt_irrefl)
  next
    case False
    from snoc.IH[OF False] obtain p where p: "p \<in> set xs" "foldl track_pident None xs = Some p"
      and m: "\<forall>h\<in>set xs. \<not> fgt (hit_pident h) (hit_pident p)" by blast
    have f: "foldl track_pident None (xs @ [x]) =
             Some (if fgt (hit_pident x) (hit_pident p) then x else p)"
      by (simp add: p(2) track_pident_Some)
    show ?thesis
    proof (cases "fgt (hit_pident x) (hit_pident p)")
      case True
      have "\<forall>h\<in>set (xs @ [x]). \<not> fgt (hit_pident h) (hit_pident x)"
      proof
        fix h assume h: "h \<in> set (xs @ [x])"
        show "\<not> fgt (hit_pident h) (hit_pident x)"
        proof (cases "h = x")
          case True
          then show ?thesis by (simp add: fgt_irrefl)
        next
          case False
          with h m have "\<not> fgt (hit_pident h) (hit_pident p)" by simp
          then show ?thesis using fgt_trans[OF _ True] by blast
        qed
      qed
      with f True show ?thesis by simp
    next
      case False
      with m have "\<forall>h\<in>set (xs @ [x]). \<not> fgt (hit_pident h) (hit_pident p)" by auto
      with f False p(1) show ?thesis by simp
    qed
  qed
qed

lemma parse_row_fields:
  assumes "py_int pint (field r 3) = Inr q" "py_int pint (field r 4) = Inr l"
    "py_int pint (field r 5) = Inr g" "py_float pfloat (field r 2) = Inr p"
  shows "parse_row pint pfloat r = Inr (q - l + g, p, last (split_on CHR ''_'' (r ! 0)))"
  using assms by (simp add: parse_row_def)

text \<open>
  C1. Let the file have at least one row and let every row parse: its qlen, length and
  gaps fields are the integers \<open>qlen r\<close>, \<open>alen r\<close>, \<open>gaps r\<close> and its pident field is the
  float \<open>pident r\<close>. Then \<open>_find_best_allele\<close> returns the text after the last underscore
  of the query id of a row \<open>b\<close> whose Length Score \<open>qlen b - alen b + gaps b\<close> is minimal
  and that no row of equal Length Score exceeds in percent identity. The row \<open>p\<close> of
  maximal percent identity takes no part in the result: when its allele differs from
  that of \<open>b\<close>, three warnings are logged and the allele of \<open>b\<close> is still returned.
\<close>

theorem best_match_minimal_ls:
  assumes "fs blast_file = Rows rows"
    and "dict_rows rows \<noteq> []"
    and "\<forall>r\<in>set (dict_rows rows).
           py_int pint (field r 3) = Inr (qlen r) \<and> py_int pint (field r 4) = Inr (alen r) \<and>
           py_int pint (field r 5) = Inr (gaps r) \<and> py_float pfloat (field r 2) = Inr (pident r)"
  shows "\<exists>b\<in>set (dict_rows rows). \<exists>p\<in>set (dict_rows rows).
      find_best_allele pint pfloat fs blast_file =
        (Inr (Some (last (split_on CHR ''_'' (b ! 0)))),
         if last (split_on CHR ''_'' (b ! 0)) \<noteq> last (split_on CHR ''_'' (p ! 0))
         then [Different_alleles blast_file,
               Best_LS (qlen b - alen b + gaps b, pident b, last (split_on CHR ''_'' (b ! 0))),
               Best_ID (qlen p - alen p + gaps p, pident p, last (split_on CHR ''_'' (p ! 0)))]
         else [])
      \<and> (\<forall>r\<in>set (dict_rows rows). qlen b - alen b + gaps b \<le> qlen r - alen r + gaps r)
      \<and> (\<forall>r\<in>set (dict_rows rows).
            qlen r - alen r + gaps r = qlen b - alen b + gaps b \<longrightarrow>
            \<not> fgt (pident r) (pident b))
      \<and> (\<forall>r\<in>set (dict_rows rows). \<not> fgt (pident r) (pident p))"
proof -
  define hit_of :: "string list \<Rightarrow> hit" where
    "hit_of r = (qlen r - alen r + gaps r, pident r, last (split_on CHR ''_'' (r ! 0)))" for r
  define hits where "hits = map hit_of (dict_rows rows)"
  have parsed: "map (parse_row pint pfloat) (dict_rows rows) = map Inr hits"
    unfolding hits_def using assms(3) by (simp add: parse_row_fields hit_of_def)
  have ne: "hits \<noteq> []" using assms(2) by (simp add: hits_def)
  from foldl_track_ls_inv[OF ne] obtain bh where
    bh: "bh \<in> set hits" "foldl track_ls None hits = Some bh"
    and bm: "\<forall>h\<in>set hits. hit_ls bh \<le> hit_ls h \<and>
              (hit_ls h = hit_ls bh \<longrightarrow> \<not> fgt (hit_pident h) (hit_pident bh))" by blast
  from foldl_track_pident_inv[OF ne] obtain ph where
    ph: "ph \<in> set hits" "foldl track_pident None hits = Some ph"
    and pm: "\<forall>h\<in>set hits. \<not> fgt (hit_pident h) (hit_pident ph)" by blast
  from bh(1) obtain b where b: "b \<in> set (dict_rows rows)" "bh = hit_of b"
    by (auto simp: hits_def)
  from ph(1) obtain p where p: "p \<in> set (dict_rows rows)" "ph = hit_of p"
    by (auto simp: hits_def)
  have scan: "scan_rows pint pfloat (None, None) (dict_rows rows) = Inr (Some bh, Some ph)"
    using scan_rows_parsed[OF parsed, of None None] bh(2) ph(2) by simp
  have res: "find_best_allele pint pfloat fs blast_file =
        (Inr (Some (last (split_on CHR ''_'' (b ! 0)))),
         if last (split_on CHR ''_'' (b ! 0)) \<noteq> last (split_on CHR ''_'' (p ! 0))
         then [Different_alleles blast_file,
               Best_LS (qlen b - alen b + gaps b, pident b, last (split_on CHR ''_'' (b ! 0))),
               Best_ID (qlen p - alen p + gaps p, pident p, last (split_on CHR ''_'' (p ! 0)))]
         else [])"
    by (simp add: find_best_allele_def assms(1) scan b(2) p(2) hit_of_def)
  have in_hits: "\<And>r. r \<in> set (dict_rows rows) \<Longrightarrow> hit_of r \<in> set hits"
    by (simp add: hits_def)
  have m1: "\<forall>r\<in>set (dict_rows rows). qlen b - alen b + gaps b \<le> qlen r - alen r + gaps r"
  proof
    fix r assume "r \<in> set (dict_rows rows)"
    from bm[rule_format, OF in_hits[OF this]]
    show "qlen b - alen b + gaps b \<le> qlen r - alen r + gaps r"
      by (simp add: b(2) hit_of_def)
  qed
  have m2: "\<forall>r\<in>set (dict_rows rows).
            qlen r - alen r + gaps r = qlen b - alen b + gaps b \<longrightarrow>
            \<not> fgt (pident r) (pident b)"
  proof
    fix r assume "r \<in> set (dict_rows rows)"
    from bm[rule_format, OF in_hits[OF this]]
    show "qlen r - alen r + gaps r = qlen b - alen b + gaps b \<longrightarrow>
            \<not> fgt (pident r) (pident b)"
      by (simp add: b(2) hit_of_def)
  qed
  have m3: "\<forall>r\<in>set (dict_rows rows). \<not> fgt (pident r) (pident p)"
  proof
    fix r assume "r \<in> set (dict_rows rows)"
    from pm[rule_format, OF in_hits[OF this]]
    show "\<not> fgt (pident r) (pident p)" by (simp add: p(2) hit_of_def)
  qed
  from b(1) p(1) res m1 m2 m3 show ?thesis by blast
qed

lemma gapped_fields:
  "\<forall>r\<in>set (dict_rows [[''abc_1'', ''G1'', ''100'', ''500'', ''500'', ''3'', ''0''],
                       [''abc_2'', ''G1'', ''99'', ''500'', ''499'', ''0'', ''5'']]).
      py_int digits_int (field r 3) = Inr (int_field 3 r) \<and>
      py_int digits_int (field r 4) = Inr (int_field 4 r) \<and>
      py_int digits_int (field r 5) = Inr (int_field 5 r) \<and>
      py_float digits_float (field r 2) = Inr (float_field 2 r)"
  by code_simp

lemma gapped_values:
  "int_field 3 [''abc_1'', ''G1'', ''100'', ''500'', ''500'', ''3'', ''0''] = 500"
  "int_field 4 [''abc_1'', ''G1'', ''100'', ''500'', ''500'', ''3'', ''0''] = 500"
  "int_field 5 [''abc_1'', ''G1'', ''100'', ''500'', ''500'', ''3'', ''0''] = 3"
  "float_field 2 [''abc_1'', ''G1'', ''100'', ''500'', ''500'', ''3'', ''0''] = Fin 100"
  "int_field 3 [''abc_2'', ''G1'', ''99'', ''500'', ''499'', ''0'', ''5''] = 500"
  "int_field 4 [''abc_2'', ''G1'', ''99'', ''500'', ''499'', ''0'', ''5''] = 499"
  "int_field 5 [''abc_2'', ''G1'', ''99'', ''500'', ''499'', ''0'', ''5''] = 0"
  "float_field 2 [''abc_2'', ''G1'', ''99'', ''500'', ''499'', ''0'', ''5''] = Fin 99"
  "last (split_on CHR ''_'' ''abc_1'') = ''1''"
  "last (split_on CHR ''_'' ''abc_2'') = ''2''"
  by code_simp+

text \<open>
  Allele 1 is aligned over its whole length with 3 gaps (Length Score 3, 100 percent),
  allele 2 lacks one position and has no gap (Length Score 1, 99 percent): allele 2 is
  returned, and the disagreement with the percent identity is logged as warnings.
\<close>

theorem best_match_minimal_ls_witness:
  "find_best_allele digits_int digits_float fs_gapped ''out/abc_vs_G1.tab'' =
     (Inr (Some ''2''), [Different_alleles ''out/abc_vs_G1.tab'',
                         Best_LS (1, Fin 99, ''2''), Best_ID (3, Fin 100, ''1'')])"
proof -
  have f: "fs_gapped ''out/abc_vs_G1.tab'' =
      Rows [[''abc_1'', ''G1'', ''100'', ''500'', ''500'', ''3'', ''0''],
            [''abc_2'', ''G1'', ''99'', ''500'', ''499'', ''0'', ''5'']]"
    by (simp add: fs_gapped_def)
  have n: "dict_rows [[''abc_1'', ''G1'', ''100'', ''500'', ''500'', ''3'', ''0''],
            [''abc_2'', ''G1'', ''99'', ''500'', ''499'', ''0'', ''5'']] \<noteq> []"
    by (simp add: dict_rows_def)
  from best_match_minimal_ls[where fs=fs_gapped and blast_file="''out/abc_vs_G1.tab''",
      OF f n gapped_fields]
  show ?thesis by (auto simp: dict_rows_def gapped_values)
qed

text \<open>
  C4. A file with no row (or only rows that \<open>csv.DictReader\<close> skips) gives \<open>None\<close>: no
  allele is returned, no exception is raised and nothing is logged.
\<close>

theorem empty_hit_list_none:
  assumes "fs blast_file = Rows rows" and "dict_rows rows = []"
  shows "find_best_allele pint pfloat fs blast_file = (Inr None, [])"
  by (simp add: find_best_allele_def assms ok_def)

text \<open>An output file that exists and holds no row.\<close>

theorem empty_hit_list_none_witness:
  "find_best_allele digits_int digits_float fs_empty_output ''out/xyz_vs_G2.tab'' = (Inr None, [])"
proof -
  have f: "fs_empty_output ''out/xyz_vs_G2.tab'' = Rows []" by (simp add: fs_empty_output_def)
  have d: "dict_rows [] = []" by (simp add: dict_rows_def)
  from empty_hit_list_none[where fs=fs_empty_output, OF f d] show ?thesis .
qed

text \<open>
  C8. Let \<open>h\<close> be a hit of minimal Length Score and, among those, of maximal percent
  identity, and let no hit before it have the same Length Score and percent identity.
  Then the allele of \<open>h\<close> is returned, whatever hits tied with \<open>h\<close> follow it.
\<close>

theorem earliest_of_tied_hits:
  assumes "fs blast_file = Rows rows"
    and "map (parse_row pint pfloat) (dict_rows rows) = map Inr (pre @ h # post)"
    and "\<forall>x\<in>set (pre @ h # post). hit_pident x \<noteq> NaN"
    and "\<forall>x\<in>set (pre @ post). hit_ls h \<le> hit_ls x"
    and "\<forall>x\<in>set (pre @ post). hit_ls x = hit_ls h \<longrightarrow> \<not> fgt (hit_pident x) (hit_pident h)"
    and "\<forall>x\<in>set pre. \<not> (hit_ls x = hit_ls h \<and> hit_pident x = hit_pident h)"
  shows "fst (find_best_allele pint pfloat fs blast_file) = Inr (Some (hit_allele h))"
proof -
  have post: "\<forall>x\<in>set post. \<not> beats x h"
  proof
    fix x assume x: "x \<in> set post"
    with assms(4) have "hit_ls h \<le> hit_ls x" by auto
    moreover from x assms(5) have "hit_ls x = hit_ls h \<longrightarrow> \<not> fgt (hit_pident x) (hit_pident h)"
      by auto
    ultimately show "\<not> beats x h" by (auto simp: beats_def)
  qed
  have pre: "\<forall>x\<in>set pre. beats h x"
  proof
    fix x assume x: "x \<in> set pre"
    with assms(3) have nn: "hit_pident x \<noteq> NaN" "hit_pident h \<noteq> NaN" by auto
    from x assms(4) have le: "hit_ls h \<le> hit_ls x" by auto
    show "beats h x"
    proof (cases "hit_ls h < hit_ls x")
      case True then show ?thesis by (simp add: beats_def)
    next
      case False
      with le have eq: "hit_ls x = hit_ls h" by simp
      with x assms(5) have "\<not> fgt (hit_pident x) (hit_pident h)" by auto
      moreover from x eq assms(6) have "hit_pident x \<noteq> hit_pident h" by auto
      ultimately have "fgt (hit_pident h) (hit_pident x)" using fgt_total[OF nn] by blast
      with eq show ?thesis by (simp add: beats_def)
    qed
  qed
  obtain p where p: "foldl track_pident None (pre @ h # post) = Some p"
  proof (cases pre)
    case Nil
    with foldl_track_pident_Some[of h post] that show ?thesis by (auto simp: track_pident_def)
  next
    case (Cons a as)
    with foldl_track_pident_Some[of a "as @ h # post"] that show ?thesis
      by (auto simp: track_pident_def)
  qed
  have "scan_rows pint pfloat (None, None) (dict_rows rows) = Inr (Some h, Some p)"
    using scan_rows_parsed[OF assms(2), of None None] foldl_track_ls_first[OF pre post] p by simp
  then show ?thesis by (simp add: find_best_allele_def assms(1))
qed

lemma tied_parsed: "map (parse_row digits_int digits_float)
        (dict_rows [[''abc_3'', ''G1'', ''100'', ''500'', ''490'', ''0'', ''0''],
                 [''abc_7'', ''G1'', ''100'', ''500'', ''500'', ''0'', ''0''],
                 [''abc_9'', ''G1'', ''100'', ''500'', ''500'', ''0'', ''0'']])
       = map Inr ([(10, Fin 100, ''3'')] @ (0, Fin 100, ''7'') # [(0, Fin 100, ''9'')])"
  by code_simp

text \<open>Alleles 7 and 9 are tied at Length Score 0 and 100 percent; 7 comes first.\<close>

theorem earliest_of_tied_hits_witness:
  "fst (find_best_allele digits_int digits_float fs_tied ''out/abc_vs_G1.tab'') = Inr (Some ''7'')"
proof -
  have f: "fs_tied ''out/abc_vs_G1.tab'' =
      Rows [[''abc_3'', ''G1'', ''100'', ''500'', ''490'', ''0'', ''0''],
                 [''abc_7'', ''G1'', ''100'', ''500'', ''500'', ''0'', ''0''],
                 [''abc_9'', ''G1'', ''100'', ''500'', ''500'', ''0'', ''0'']]"
    by (simp add: fs_tied_def)
  from earliest_of_tied_hits[where fs=fs_tied and blast_file="''out/abc_vs_G1.tab''", OF f tied_parsed]
  show ?thesis by simp
qed

lemma parse_row_fails:
  assumes "(i \<in> {3, 4, 5} \<and> py_int pint (field r i) = Inl e) \<or> py_float pfloat (field r 2) = Inl e"
  shows "\<exists>e'. parse_row pint pfloat r = Inl e'"
  using assms by (auto simp: parse_row_def Let_def split: sum.splits)

lemma scan_rows_result:
  "scan_rows pint pfloat (bl, bp) rows = Inr (Some b, p) \<Longrightarrow>
   Some b = bl \<or> (\<exists>r\<in>set rows. hit_allele b = last (split_on CHR ''_'' (r ! 0)))"
proof (induction rows arbitrary: bl bp)
  case Nil
  then show ?case by simp
next
  case (Cons r rows)
  from Cons.prems obtain h where h: "parse_row pint pfloat r = Inr h"
    and s: "scan_rows pint pfloat (track_ls bl h, track_pident bp h) rows = Inr (Some b, p)"
    by (auto split: sum.splits)
  from h have a: "hit_allele h = last (split_on CHR ''_'' (r ! 0))"
    by (auto simp: parse_row_def Let_def split: sum.splits)
  from Cons.IH[OF s] show ?case
  proof
    assume "Some b = track_ls bl h"
    then have "Some b = bl \<or> b = h" by (auto simp: track_ls_def split: option.splits if_splits)
    with a show ?thesis by auto
  next
    assume "\<exists>r\<in>set rows. hit_allele b = last (split_on CHR ''_'' (r ! 0))"
    then show ?thesis by auto
  qed
qed

lemma find_best_allele_failures_give_none:
  "(fs blast_file = Missing \<longrightarrow> find_best_allele pint pfloat fs blast_file = (Inr None, []))
   \<and> (fs blast_file = Unreadable \<longrightarrow>
        find_best_allele pint pfloat fs blast_file = (Inr None, [Error_processing blast_file]))
   \<and> (\<forall>rows. fs blast_file = Rows rows \<longrightarrow>
        (\<exists>r\<in>set (dict_rows rows). \<exists>e.
            py_int pint (field r 3) = Inl e \<or> py_int pint (field r 4) = Inl e \<or>
            py_int pint (field r 5) = Inl e \<or> py_float pfloat (field r 2) = Inl e) \<longrightarrow>
        find_best_allele pint pfloat fs blast_file = (Inr None, [Error_processing blast_file]))
   \<and> (fs blast_file = Stat_error \<longrightarrow> find_best_allele pint pfloat fs blast_file = (Inl OSError, []))
   \<and> (fs blast_file \<noteq> Stat_error \<longrightarrow>
        fst (find_best_allele pint pfloat fs blast_file) = Inr None \<or>
        (\<exists>rows. fs blast_file = Rows rows \<and>
          (\<exists>r\<in>set (dict_rows rows).
             fst (find_best_allele pint pfloat fs blast_file) =
               Inr (Some (last (split_on CHR ''_'' (r ! 0)))))))"
proof (intro conjI impI allI)
  assume "fs blast_file = Missing"
  then show "find_best_allele pint pfloat fs blast_file = (Inr None, [])"
    by (simp add: find_best_allele_def ok_def)
next
  assume "fs blast_file = Unreadable"
  then show "find_best_allele pint pfloat fs blast_file = (Inr None, [Error_processing blast_file])"
    by (simp add: find_best_allele_def ok_def log_then_def)
next
  fix rows
  assume f: "fs blast_file = Rows rows"
    and bad: "\<exists>r\<in>set (dict_rows rows). \<exists>e.
            py_int pint (field r 3) = Inl e \<or> py_int pint (field r 4) = Inl e \<or>
            py_int pint (field r 5) = Inl e \<or> py_float pfloat (field r 2) = Inl e"
  then obtain r e where r: "r \<in> set (dict_rows rows)"
    and "py_int pint (field r 3) = Inl e \<or> py_int pint (field r 4) = Inl e \<or>
            py_int pint (field r 5) = Inl e \<or> py_float pfloat (field r 2) = Inl e" by blast
  then have "\<exists>e'. parse_row pint pfloat r = Inl e'"
    using parse_row_fails[of 3 pint r e pfloat] parse_row_fails[of 4 pint r e pfloat]
      parse_row_fails[of 5 pint r e pfloat] by auto
  with r have "\<exists>r\<in>set (dict_rows rows). \<exists>e. parse_row pint pfloat r = Inl e" by blast
  from scan_rows_failed[OF this, of "(None, None)"] obtain e' where
    "scan_rows pint pfloat (None, None) (dict_rows rows) = Inl e'" by blast
  then show "find_best_allele pint pfloat fs blast_file = (Inr None, [Error_processing blast_file])"
    by (simp add: find_best_allele_def f ok_def log_then_def)
next
  assume "fs blast_file = Stat_error"
  then show "find_best_allele pint pfloat fs blast_file = (Inl OSError, [])"
    by (simp add: find_best_allele_def raise_def)
next
  assume ns: "fs blast_file \<noteq> Stat_error"
  show "fst (find_best_allele pint pfloat fs blast_file) = Inr None \<or>
        (\<exists>rows. fs blast_file = Rows rows \<and>
          (\<exists>r\<in>set (dict_rows rows).
             fst (find_best_allele pint pfloat fs blast_file) =
               Inr (Some (last (split_on CHR ''_'' (r ! 0))))))"
  proof (cases "fs blast_file")
    case Stat_error
    with ns show ?thesis by simp
  next
    case Missing
    then show ?thesis by (simp add: find_best_allele_def ok_def)
  next
    case Unreadable
    then show ?thesis by (simp add: find_best_allele_def ok_def log_then_def)
  next
    case (Rows rows)
    show ?thesis
    proof (cases "scan_rows pint pfloat (None, None) (dict_rows rows)")
      case (Inl e)
      then show ?thesis by (simp add: find_best_allele_def Rows ok_def log_then_def)
    next
      case (Inr st)
      obtain bl bp where st: "st = (bl, bp)" by (cases st)
      show ?thesis
      proof (cases bl)
        case None
        then show ?thesis by (simp add: find_best_allele_def Rows Inr st ok_def)
      next
        case (Some b)
        from scan_rows_result[of pint pfloat None None "dict_rows rows" b bp] Inr st Some
        have ex: "\<exists>r\<in>set (dict_rows rows). hit_allele b = last (split_on CHR ''_'' (r ! 0))"
          by simp
        show ?thesis
        proof (cases bp)
          case None
          then show ?thesis by (simp add: find_best_allele_def Rows Inr st Some ok_def)
        next
          case (Some p)
          then show ?thesis using ex
            by (simp add: find_best_allele_def Rows Inr st \<open>bl = Some b\<close>)
        qed
      qed
    qed
  qed
qed

text \<open>
  C9 does not hold of the code. The output file of the job for locus abc and a genome
  whose identifier has 250 characters has a name of 261 bytes: \<open>Path.exists()\<close> raises
  \<open>OSError\<close> for it, before the \<open>try\<close>, and the exception leaves \<open>_find_best_allele\<close>. For a
  file that exists and cannot be opened the same kind of failure is caught, logged and
  turned into \<open>None\<close>.
\<close>

theorem exists_failure_escapes:
  "find_best_allele digits_int digits_float fs_name_too_long
     (output_file ''out'' ''abc'' (replicate 250 CHR ''G'')) = (Inl OSError, [])
   \<and> find_best_allele digits_int digits_float fs_name_too_long ''out/abc_vs_G2.tab''
       = (Inr None, [Error_processing ''out/abc_vs_G2.tab''])"
  by code_simp


section \<open>The catalog loaders\<close>

lemma load_alleles_loop_catalog:
  assumes "\<forall>f\<in>set files. parsed f \<noteq> Parse_error"
  shows "\<exists>alleles. fst (load_alleles_loop acc files) = Inr alleles
      \<and> (distinct (map fst acc) \<longrightarrow> distinct (map fst alleles))
      \<and> (\<forall>g. map_of alleles g =
            latest (\<lambda>f. gene_name_of f = Some g) (\<lambda>f. (fpath f, sequence_count f)) files (map_of acc g))
      \<and> (\<forall>e\<in>set (snd (load_alleles_loop acc files)). level_of e = INFO)"
  using assms
proof (induction files arbitrary: acc)
  case Nil
  then show ?case by (simp add: ok_def latest_Nil)
next
  case (Cons f fs)
  from Cons.prems have ne: "parsed f \<noteq> Parse_error" and rest: "\<forall>f\<in>set fs. parsed f \<noteq> Parse_error"
    by simp_all
  from ne obtain ss where ss: "parsed f = Seqs ss" by (cases "parsed f") simp_all
  show ?case
  proof (cases ss)
    case Nil
    with ss have g: "\<And>g. gene_name_of f \<noteq> Some g" by (simp add: gene_name_of_def)
    have eq: "load_alleles_loop acc (f # fs) = load_alleles_loop acc fs"
      by (simp add: ss Nil)
    from Cons.IH[OF rest, of acc] show ?thesis unfolding eq latest_Cons by (simp add: g)
  next
    case (Cons s ss')
    define gn where "gn = hd (split_on CHR ''_'' s)"
    define acc' where "acc' = AList.update gn (fpath f, length (s # ss')) acc"
    from ss Cons have g: "gene_name_of f = Some gn" and c: "sequence_count f = length (s # ss')"
      by (simp_all add: gene_name_of_def sequence_count_def gn_def)
    from Cons.IH[OF rest, of acc'] obtain alleles where
      a: "fst (load_alleles_loop acc' fs) = Inr alleles"
      and d: "distinct (map fst acc') \<longrightarrow> distinct (map fst alleles)"
      and m: "\<forall>g. map_of alleles g =
            latest (\<lambda>f. gene_name_of f = Some g) (\<lambda>f. (fpath f, sequence_count f)) fs (map_of acc' g)"
      and l: "\<forall>e\<in>set (snd (load_alleles_loop acc' fs)). level_of e = INFO"
      by blast
    have eq: "load_alleles_loop acc (f # fs) =
        log_then (Loaded_alleles (length (s # ss')) gn (fname f)) (load_alleles_loop acc' fs)"
      by (simp add: ss Cons Let_def gn_def acc'_def)
    have acc'_g: "\<And>g. map_of acc' g = (if gn = g then Some (fpath f, sequence_count f) else map_of acc g)"
      by (simp add: acc'_def AList.update_conv' c)
    have m': "\<forall>g. map_of alleles g =
            latest (\<lambda>f. gene_name_of f = Some g) (\<lambda>f. (fpath f, sequence_count f)) (f # fs) (map_of acc g)"
      unfolding latest_Cons using m by (simp add: g acc'_g)
    have d': "distinct (map fst acc) \<longrightarrow> distinct (map fst alleles)"
      using d by (simp add: acc'_def AList.distinct_update)
    have l': "\<forall>e\<in>set (snd (load_alleles_loop acc (f # fs))). level_of e = INFO"
      unfolding eq using l by (simp add: snd_log_then)
    have a': "fst (load_alleles_loop acc (f # fs)) = Inr alleles"
      unfolding eq using a by (simp add: fst_log_then)
    from a' d' m' l' show ?thesis by blast
  qed
qed

text \<open>
  C10. When every locus file parses, \<open>_load_alleles\<close> returns a catalog with at most one
  entry per gene name (the first underscore-separated token of the first sequence
  identifier of a file); the entry of a gene name is the path and sequence count of the
  last enumerated file that yields this name, and every message logged is at level INFO:
  a replaced entry raises no error and no warning.
\<close>

theorem allele_catalog_last_wins:
  assumes "get_fasta_files indir = Inr files"
    and "\<forall>f\<in>set files. parsed f \<noteq> Parse_error"
  shows "\<exists>alleles. fst (load_alleles indir) = Inr alleles
      \<and> distinct (map fst alleles)
      \<and> (\<forall>g. map_of alleles g =
            map_option (\<lambda>f. (fpath f, sequence_count f))
              (find (\<lambda>f. gene_name_of f = Some g) (rev files)))
      \<and> (\<forall>e\<in>set (snd (load_alleles indir)). level_of e = INFO)"
proof -
  from load_alleles_loop_catalog[OF assms(2), of "[]"] obtain alleles where
      a: "fst (load_alleles_loop [] files) = Inr alleles"
      and d: "distinct (map fst ([]::alleles)) \<longrightarrow> distinct (map fst alleles)"
      and m: "\<forall>g. map_of alleles g =
            latest (\<lambda>f. gene_name_of f = Some g) (\<lambda>f. (fpath f, sequence_count f)) files (map_of ([]::alleles) g)"
      and l: "\<forall>e\<in>set (snd (load_alleles_loop [] files)). level_of e = INFO"
    by blast
  have m': "\<forall>g. map_of alleles g =
            map_option (\<lambda>f. (fpath f, sequence_count f))
              (find (\<lambda>f. gene_name_of f = Some g) (rev files))"
    using m by (simp add: latest_def split: option.splits)
  have "fst (load_alleles indir) = Inr alleles"
    by (simp add: load_alleles_def assms(1) fst_log_then and_then_def a ok_def)
  moreover have "\<forall>e\<in>set (snd (load_alleles indir)). level_of e = INFO"
    using l by (simp add: load_alleles_def assms(1) snd_log_then and_then_def a ok_def)
  moreover have "distinct (map fst alleles)" using d by simp
  ultimately show ?thesis using m' by blast
qed

lemma load_genomes_loop_catalog:
  assumes "\<forall>f\<in>set files. parsed f \<noteq> Parse_error"
  shows "\<exists>genomes. fst (load_genomes_loop acc files) = Inr genomes
      \<and> (distinct (map fst acc) \<longrightarrow> distinct (map fst genomes))
      \<and> (\<forall>i. map_of genomes i =
            latest (\<lambda>f. has_sequences f \<and> isolate_id_of f = i) fpath files (map_of acc i))
      \<and> (\<forall>e\<in>set (snd (load_genomes_loop acc files)). level_of e = INFO)"
  using assms
proof (induction files arbitrary: acc)
  case Nil
  then show ?case by (simp add: ok_def latest_Nil)
next
  case (Cons f fs)
  from Cons.prems have ne: "parsed f \<noteq> Parse_error" and rest: "\<forall>f\<in>set fs. parsed f \<noteq> Parse_error"
    by simp_all
  from ne obtain ss where ss: "parsed f = Seqs ss" by (cases "parsed f") simp_all
  show ?case
  proof (cases ss)
    case Nil
    with ss have g: "\<not> has_sequences f" by (simp add: has_sequences_def)
    have eq: "load_genomes_loop acc (f # fs) = load_genomes_loop acc fs"
      by (simp add: ss Nil)
    from Cons.IH[OF rest, of acc] show ?thesis unfolding eq latest_Cons by (simp add: g)
  next
    case (Cons s ss')
    define acc' where "acc' = AList.update (isolate_id_of f) (fpath f) acc"
    from ss Cons have g: "has_sequences f" by (simp add: has_sequences_def)
    from Cons.IH[OF rest, of acc'] obtain genomes where
      a: "fst (load_genomes_loop acc' fs) = Inr genomes"
      and d: "distinct (map fst acc') \<longrightarrow> distinct (map fst genomes)"
      and m: "\<forall>i. map_of genomes i =
            latest (\<lambda>f. has_sequences f \<and> isolate_id_of f = i) fpath fs (map_of acc' i)"
      and l: "\<forall>e\<in>set (snd (load_genomes_loop acc' fs)). level_of e = INFO"
      by blast
    have eq: "load_genomes_loop acc (f # fs) =
        log_then (Loaded_genome (isolate_id_of f) (fname f)) (load_genomes_loop acc' fs)"
      by (simp add: ss Cons Let_def acc'_def)
    have acc'_g: "\<And>i. map_of acc' i = (if isolate_id_of f = i then Some (fpath f) else map_of acc i)"
      by (simp add: acc'_def AList.update_conv')
    have m': "\<forall>i. map_of genomes i =
            latest (\<lambda>f. has_sequences f \<and> isolate_id_of f = i) fpath (f # fs) (map_of acc i)"
      unfolding latest_Cons using m by (simp add: g acc'_g)
    have d': "distinct (map fst acc) \<longrightarrow> distinct (map fst genomes)"
      using d by (simp add: acc'_def AList.distinct_update)
    have l': "\<forall>e\<in>set (snd (load_genomes_loop acc (f # fs))). level_of e = INFO"
      unfolding eq using l by (simp add: snd_log_then)
    have a': "fst (load_genomes_loop acc (f # fs)) = Inr genomes"
      unfolding eq using a by (simp add: fst_log_then)
    from a' d' m' l' show ?thesis by blast
  qed
qed

text \<open>
  C6, as amended. When every genome file parses, \<open>_load_genomes\<close> does not fail, also when
  several files have the same sanitized stem: an identifier maps to the path of the last
  enumerated file (with at least one sequence) that has it, nothing above level INFO is
  logged, and the identifiers of the returned catalog are distinct.
\<close>

theorem genome_ids_collide_silently:
  assumes "get_fasta_files gdir = Inr files"
    and "\<forall>f\<in>set files. parsed f \<noteq> Parse_error"
  shows "\<exists>genomes. fst (load_genomes gdir) = Inr genomes
      \<and> distinct (map fst genomes)
      \<and> (\<forall>i. map_of genomes i =
            map_option fpath (find (\<lambda>f. has_sequences f \<and> isolate_id_of f = i) (rev files)))
      \<and> (\<forall>e\<in>set (snd (load_genomes gdir)). level_of e = INFO)"
proof -
  from load_genomes_loop_catalog[OF assms(2), of "[]"] obtain genomes where
      a: "fst (load_genomes_loop [] files) = Inr genomes"
      and d: "distinct (map fst ([]::genomes)) \<longrightarrow> distinct (map fst genomes)"
      and m: "\<forall>i. map_of genomes i =
            latest (\<lambda>f. has_sequences f \<and> isolate_id_of f = i) fpath files (map_of ([]::genomes) i)"
      and l: "\<forall>e\<in>set (snd (load_genomes_loop [] files)). level_of e = INFO"
    by blast
  have m': "\<forall>i. map_of genomes i =
            map_option fpath (find (\<lambda>f. has_sequences f \<and> isolate_id_of f = i) (rev files))"
    using m by (simp add: latest_def split: option.splits)
  have "fst (load_genomes gdir) = Inr genomes"
    by (simp add: load_genomes_def assms(1) fst_log_then and_then_def a ok_def)
  moreover have "\<forall>e\<in>set (snd (load_genomes gdir)). level_of e = INFO"
    using l by (simp add: load_genomes_def assms(1) snd_log_then and_then_def a ok_def)
  moreover have "distinct (map fst genomes)" using d by simp
  ultimately show ?thesis using m' by blast
qed

lemma colliding_files:
  "get_fasta_files colliding_genomes = Inr [genome_file ''a|b'' ''.fasta'', genome_file ''a b'' ''.fasta'']"
  by (simp add: get_fasta_files_def colliding_genomes_def extensions_def)

text \<open>
  C6 as stated fails: the stems \<open>a|b\<close> and \<open>a b\<close> both give the identifier \<open>a_b\<close>, and
  the loader returns a catalog of one genome instead of a fatal error.
\<close>

theorem genome_id_collision_counterexample:
  "isolate_id_of (genome_file ''a|b'' ''.fasta'') = ''a_b''
   \<and> isolate_id_of (genome_file ''a b'' ''.fasta'') = ''a_b''
   \<and> load_genomes colliding_genomes =
       (Inr [(''a_b'', ''genomes/a b.fasta'')],
        [Processing_genome_directory, Loaded_genome ''a_b'' ''a|b.fasta'',
         Loaded_genome ''a_b'' ''a b.fasta'', Found_genomes 1])"
  by (simp add: load_genomes_def colliding_files isolate_id_of_def replace_char_def
      genome_file_def log_then_def and_then_def ok_def Let_def)

text \<open>The same directory: the identifier maps to the file enumerated last.\<close>

theorem genome_ids_collide_silently_witness:
  "\<exists>genomes. fst (load_genomes colliding_genomes) = Inr genomes
      \<and> distinct (map fst genomes)
      \<and> map_of genomes ''a_b'' = Some ''genomes/a b.fasta''"
proof -
  have p: "\<forall>f\<in>set [genome_file ''a|b'' ''.fasta'', genome_file ''a b'' ''.fasta'']. parsed f \<noteq> Parse_error"
    by (simp add: genome_file_def)
  from genome_ids_collide_silently[OF colliding_files p] obtain genomes where
    g: "fst (load_genomes colliding_genomes) = Inr genomes" "distinct (map fst genomes)"
    and m: "\<forall>i. map_of genomes i =
            map_option fpath (find (\<lambda>f. has_sequences f \<and> isolate_id_of f = i)
               (rev [genome_file ''a|b'' ''.fasta'', genome_file ''a b'' ''.fasta'']))"
    by blast
  have "map_of genomes ''a_b'' = Some ''genomes/a b.fasta''"
    unfolding m[rule_format]
    by (simp add: has_sequences_def isolate_id_of_def replace_char_def genome_file_def)
  with g show ?thesis by blast
qed

lemma duplicate_loci_files:
  "get_fasta_files duplicate_loci =
     Inr [locus_file ''abc_old'' [''abc_1''], locus_file ''xyz'' [''xyz_1'', ''xyz_2''],
          locus_file ''abc_new'' [''abc_1'', ''abc_2'', ''abc_3'']]"
  by (simp add: get_fasta_files_def duplicate_loci_def extensions_def)

text \<open>Two locus files yield the gene name abc; the later one is in the catalog.\<close>

theorem allele_catalog_last_wins_witness:
  "\<exists>alleles. fst (load_alleles duplicate_loci) = Inr alleles
      \<and> distinct (map fst alleles)
      \<and> map_of alleles ''abc'' = Some (''alleles/abc_new.fas'', 3)
      \<and> map_of alleles ''xyz'' = Some (''alleles/xyz.fas'', 2)
      \<and> list_all (\<lambda>e. level_of e = INFO) (snd (load_alleles duplicate_loci))"
proof -
  have p: "\<forall>f\<in>set [locus_file ''abc_old'' [''abc_1''], locus_file ''xyz'' [''xyz_1'', ''xyz_2''],
          locus_file ''abc_new'' [''abc_1'', ''abc_2'', ''abc_3'']]. parsed f \<noteq> Parse_error"
    by (simp add: locus_file_def)
  from allele_catalog_last_wins[OF duplicate_loci_files p] obtain alleles where
    g: "fst (load_alleles duplicate_loci) = Inr alleles" "distinct (map fst alleles)"
    and m: "\<forall>g. map_of alleles g =
            map_option (\<lambda>f. (fpath f, sequence_count f))
              (find (\<lambda>f. gene_name_of f = Some g)
                (rev [locus_file ''abc_old'' [''abc_1''], locus_file ''xyz'' [''xyz_1'', ''xyz_2''],
          locus_file ''abc_new'' [''abc_1'', ''abc_2'', ''abc_3'']]))"
    and l: "\<forall>e\<in>set (snd (load_alleles duplicate_loci)). level_of e = INFO"
    by blast
  have "map_of alleles ''abc'' = Some (''alleles/abc_new.fas'', 3)"
    unfolding m[rule_format]
    by (simp add: gene_name_of_def sequence_count_def locus_file_def)
  moreover have "map_of alleles ''xyz'' = Some (''alleles/xyz.fas'', 2)"
    unfolding m[rule_format]
    by (simp add: gene_name_of_def sequence_count_def locus_file_def)
  moreover have "list_all (\<lambda>e. level_of e = INFO) (snd (load_alleles duplicate_loci))"
    using l by (simp add: list_all_iff)
  ultimately show ?thesis using g by blast
qed

section \<open>Alignment jobs and the results table\<close>












text \<open>
  The hypothesis on \<open>Path.exists()\<close> cannot be dropped: for an output file whose name is
  too long the call raises \<open>OSError\<close> in \<open>_find_best_allele\<close>, outside its \<open>try\<close>, and the
  loop of \<open>_process_blast_results\<close> ends with this exception instead of a table.
\<close>

lemma stat_failure_aborts_results:
  "map_sum id df_index
     (fst (process_blast_results digits_int digits_float fs_name_too_long
             [(''abc'', (''alleles/abc.fas'', 2))]
             [(replicate 250 CHR ''G'', ''genomes/G.fasta'')]
             [((replicate 250 CHR ''G'', ''abc''),
               output_file ''out'' ''abc'' (replicate 250 CHR ''G''))])) = Inl OSError"
  by code_simp

section \<open>The profile resolver\<close>

lemma genes_of_row_Some: "genes_of_row (Some gs) row = ok gs"
  by (simp add: genes_of_row_def)

lemma profiles_loop_Some_Cons:
  "fst (profiles_loop repr (Some gs, p) (row # rows)) =
     (case row_entry repr gs row of
        None \<Rightarrow> fst (profiles_loop repr (Some gs, p) (row # rows))
      | Some (k, st) \<Rightarrow> fst (profiles_loop repr (Some gs, AList.update k st p) rows))"
  by (simp add: genes_of_row_Some fst_and_then_Inr[OF fst_ok] row_entry_def split: sum.splits)

lemma profiles_loop_Some_fails:
  "row_entry repr gs row = None \<Longrightarrow> \<exists>e. fst (profiles_loop repr (Some gs, p) (row # rows)) = Inl e"
  by (auto simp: genes_of_row_Some fst_and_then_Inr[OF fst_ok] row_entry_def fst_raise
      split: sum.splits)

lemma profiles_loop_Some:
  assumes "fst (profiles_loop repr (Some gs, p) rows) = Inr (g', p')"
  shows "g' = Some gs \<and> (\<forall>row\<in>set rows. row_entry repr gs row \<noteq> None) \<and>
         (\<forall>k. map_of p' k =
            latest (\<lambda>row. map_option fst (row_entry repr gs row) = Some k)
                   (\<lambda>row. snd (the (row_entry repr gs row))) rows (map_of p k))"
  using assms
proof (induction rows arbitrary: p)
  case Nil
  then show ?case by (simp add: ok_def latest_Nil)
next
  case (Cons row rows)
  show ?case
  proof (cases "row_entry repr gs row")
    case None
    from profiles_loop_Some_fails[OF None, of p rows] Cons.prems show ?thesis by auto
  next
    case (Some e)
    obtain k st where e: "e = (k, st)" by (cases e)
    have eq: "fst (profiles_loop repr (Some gs, p) (row # rows)) =
              fst (profiles_loop repr (Some gs, AList.update k st p) rows)"
      using profiles_loop_Some_Cons[of repr gs p row rows] by (simp add: Some e)
    from Cons.IH[of "AList.update k st p"] Cons.prems eq
    have ih: "g' = Some gs" "\<forall>row\<in>set rows. row_entry repr gs row \<noteq> None"
      "\<forall>k'. map_of p' k' =
            latest (\<lambda>row. map_option fst (row_entry repr gs row) = Some k')
                   (\<lambda>row. snd (the (row_entry repr gs row))) rows (map_of (AList.update k st p) k')"
      by simp_all
    have "\<forall>k'. map_of p' k' =
            latest (\<lambda>row. map_option fst (row_entry repr gs row) = Some k')
                   (\<lambda>row. snd (the (row_entry repr gs row))) (row # rows) (map_of p k')"
      unfolding latest_Cons using ih(3) by (simp add: Some e AList.update_conv')
    with ih(1,2) Some show ?thesis by simp
  qed
qed

lemma profiles_loop_None_Cons:
  "fst (profiles_loop repr (None, p) (d # ds)) =
     (case py_sorted (filter (\<lambda>k. k \<noteq> Some ''ST'' \<and> k \<noteq> Some ''clonal_complex'') (map fst d)) of
        Inl e \<Rightarrow> Inl e
      | Inr gs \<Rightarrow> fst (profiles_loop repr (Some gs, p) (d # ds)))"
  by (simp add: genes_of_row_def and_then_def log_then_def ok_def raise_def split: sum.splits)

lemma py_sorted_set: "py_sorted ks = Inr gs \<Longrightarrow> set gs = set ks"
proof -
  assume a: "py_sorted ks = Inr gs"
  show ?thesis
  proof (cases "None \<in> set ks")
    case True
    with a show ?thesis by (simp add: py_sorted_def split: if_splits)
  next
    case False
    then have "map Some (map the ks) = ks" by (induction ks) auto
    then have "Some ` the ` set ks = set ks" by (metis image_set)
    with a False show ?thesis by (auto simp: py_sorted_def)
  qed
qed

lemma load_profiles_rows:
  assumes "fst (load_mlst_profiles repr fs path) = Inr (Some genes, profiles)"
  shows "Some ''ST'' \<notin> set genes
     \<and> (\<forall>row\<in>set (profile_table fs path). row_entry repr genes row \<noteq> None)
     \<and> (\<forall>k. map_of profiles k =
            latest (\<lambda>row. map_option fst (row_entry repr genes row) = Some k)
                   (\<lambda>row. snd (the (row_entry repr genes row))) (profile_table fs path) None)"
proof (cases "fs path")
  case Stat_error
  with assms show ?thesis by (simp add: load_mlst_profiles_def fst_log_then fst_fatal)
next
  case Missing
  with assms show ?thesis by (simp add: load_mlst_profiles_def fst_log_then fst_fatal)
next
  case Unreadable
  with assms show ?thesis by (simp add: load_mlst_profiles_def fst_log_then fst_fatal)
next
  case (Rows rows)
  show ?thesis
  proof (cases rows)
    case Nil
    with assms Rows show ?thesis by (simp add: load_mlst_profiles_def fst_log_then fst_ok)
  next
    case (Cons fieldnames rest)
    define ds where "ds = map (dict_reader_row fieldnames) (dict_rows rest)"
    have pt: "profile_table fs path = ds" by (simp add: profile_table_def Rows Cons ds_def)
    from assms have r: "fst (profiles_loop repr (None, []) ds) = Inr (Some genes, profiles)"
      by (auto simp: load_mlst_profiles_def fst_log_then Rows Cons Let_def ds_def split: sum.splits)
    show ?thesis
    proof (cases ds)
      case Nil
      with r show ?thesis by (simp add: ok_def)
    next
      case (Cons d ds')
      from r obtain gs where
        s: "py_sorted (filter (\<lambda>k. k \<noteq> Some ''ST'' \<and> k \<noteq> Some ''clonal_complex'') (map fst d)) = Inr gs"
        and l: "fst (profiles_loop repr (Some gs, []) ds) = Inr (Some genes, profiles)"
        unfolding Cons profiles_loop_None_Cons by (auto split: sum.splits)
      from profiles_loop_Some[OF l] have g: "genes = gs"
        and e: "\<forall>row\<in>set ds. row_entry repr gs row \<noteq> None"
        and m: "\<forall>k. map_of profiles k =
            latest (\<lambda>row. map_option fst (row_entry repr gs row) = Some k)
                   (\<lambda>row. snd (the (row_entry repr gs row))) ds (map_of [] k)"
        by simp_all
      from py_sorted_set[OF s] have "Some ''ST'' \<notin> set gs" by simp
      with g e m pt show ?thesis by simp
    qed
  qed
qed

lemma load_profiles_genes:
  assumes "fst (load_mlst_profiles repr fs path) = Inr (Some genes, profiles)"
  shows "\<exists>fieldnames rest row. fs path = Rows (fieldnames # rest) \<and> row \<in> set (dict_rows rest)
     \<and> py_sorted (filter (\<lambda>k. k \<noteq> Some ''ST'' \<and> k \<noteq> Some ''clonal_complex'')
                   (map fst (dict_reader_row fieldnames row))) = Inr genes"
proof (cases "fs path")
  case Stat_error
  with assms show ?thesis by (simp add: load_mlst_profiles_def fst_log_then fst_fatal)
next
  case Missing
  with assms show ?thesis by (simp add: load_mlst_profiles_def fst_log_then fst_fatal)
next
  case Unreadable
  with assms show ?thesis by (simp add: load_mlst_profiles_def fst_log_then fst_fatal)
next
  case (Rows rows)
  show ?thesis
  proof (cases rows)
    case Nil
    with assms Rows show ?thesis by (simp add: load_mlst_profiles_def fst_log_then fst_ok)
  next
    case (Cons fieldnames rest)
    define ds where "ds = map (dict_reader_row fieldnames) (dict_rows rest)"
    from assms have r: "fst (profiles_loop repr (None, []) ds) = Inr (Some genes, profiles)"
      by (auto simp: load_mlst_profiles_def fst_log_then Rows Cons Let_def ds_def split: sum.splits)
    show ?thesis
    proof (cases "dict_rows rest")
      case Nil
      with r show ?thesis by (simp add: ok_def ds_def)
    next
      case (Cons row rows')
      then have ds: "ds = dict_reader_row fieldnames row # map (dict_reader_row fieldnames) rows'"
        by (simp add: ds_def)
      from r obtain gs where
        s: "py_sorted (filter (\<lambda>k. k \<noteq> Some ''ST'' \<and> k \<noteq> Some ''clonal_complex'')
                        (map fst (dict_reader_row fieldnames row))) = Inr gs"
        and l: "fst (profiles_loop repr (Some gs, [])
                      (dict_reader_row fieldnames row # map (dict_reader_row fieldnames) rows'))
                = Inr (Some genes, profiles)"
        unfolding ds profiles_loop_None_Cons by (auto split: sum.splits)
      from profiles_loop_Some[OF l] have g: "genes = gs" by simp
      have "row \<in> set (dict_rows rest)" by (simp add: Cons)
      with s g Rows \<open>rows = fieldnames # rest\<close> show ?thesis by blast
    qed
  qed
qed

lemma py_sorted_ascending:
  assumes "py_sorted ks = Inr gs" and "None \<notin> set gs"
  shows "\<exists>loci. gs = map Some loci \<and> sorted loci"
proof -
  from py_sorted_set[OF assms(1)] assms(2) have "None \<notin> set ks" by simp
  with assms(1) have "gs = map Some (sort (map the ks))" by (simp add: py_sorted_def)
  then show ?thesis by (metis sorted_sort)
qed





lemma latest_last:
  assumes "xs = pre @ x # post" "P x" "\<forall>y\<in>set post. \<not> P y"
  shows "latest P val xs d = Some (val x)"
proof -
  have "find P (rev post) = None" using assms(3) by (simp add: find_None_iff)
  then show ?thesis using assms(1,2) by (simp add: latest_def find_append_case)
qed

lemma latest_none:
  assumes "\<forall>y\<in>set xs. \<not> P y"
  shows "latest P val xs d = d"
proof -
  have "find P (rev xs) = None" using assms by (simp add: find_None_iff)
  then show ?thesis by (simp add: latest_def)
qed

lemma comprehension_cong:
  assumes "\<And>x. x \<in> set xs \<Longrightarrow> f x = g x"
  shows "comprehension f xs = comprehension g xs"
  using assms
proof (induction xs)
  case Nil
  show ?case by simp
next
  case (Cons a xs)
  have 1: "f a = g a" using Cons.prems by simp
  have 2: "comprehension f xs = comprehension g xs" using Cons.IH Cons.prems by simp
  show ?case by (simp add: 1 2 cong: sum.case_cong)
qed

lemma comprehension_total:
  assumes "\<And>x. x \<in> set xs \<Longrightarrow> f x = Inr (g x)"
  shows "comprehension f xs = Inr (map g xs)"
  using assms
proof (induction xs)
  case Nil
  show ?case by simp
next
  case (Cons a xs)
  have 1: "f a = Inr (g a)" using Cons.prems by simp
  have 2: "comprehension f xs = Inr (map g xs)" using Cons.IH Cons.prems by simp
  show ?case by (simp add: 1 2)
qed

lemma key_same:
  assumes "same_genes df df'" "Some ''ST'' \<notin> set gs"
  shows "allele_profile_of_isolate df' i gs = allele_profile_of_isolate df i gs"
proof -
  have "\<And>g. g \<in> set gs \<Longrightarrow> row_getitem df' i g = row_getitem df i g"
  proof -
    fix g assume "g \<in> set gs"
    with assms(2) have "g \<noteq> Some ''ST''" by auto
    with assms(1) show "row_getitem df' i g = row_getitem df i g"
      by (cases g) (auto simp: row_getitem_def same_genes_def)
  qed
  then have "comprehension
             (\<lambda>gene. case row_getitem df' i gene of
                        Inl e \<Rightarrow> Inl e
                      | Inr v \<Rightarrow> Inr (if notna v then str_dfval v else ''NA'')) gs
        = comprehension
             (\<lambda>gene. case row_getitem df i gene of
                        Inl e \<Rightarrow> Inl e
                      | Inr v \<Rightarrow> Inr (if notna v then str_dfval v else ''NA'')) gs"
    by (intro comprehension_cong) simp
  then show ?thesis by (simp add: allele_profile_of_isolate_def)
qed

lemma key_defined:
  assumes "\<forall>g\<in>set gs. \<exists>c. g = Some c \<and> c \<in> set (df_columns df)"
  shows "allele_profile_of_isolate df i gs = Inr (join '','' (map (key_part df i) gs))"
proof -
  have "comprehension
             (\<lambda>gene. case row_getitem df i gene of
                        Inl e \<Rightarrow> Inl e
                      | Inr v \<Rightarrow> Inr (if notna v then str_dfval v else ''NA'')) gs
        = Inr (map (key_part df i) gs)"
    using assms by (intro comprehension_total) (auto simp: row_getitem_def key_part_def)
  then show ?thesis by (simp add: allele_profile_of_isolate_def)
qed

lemma assign_isolate_eq:
  "fst (assign_isolate pint (Some gs) profiles df i) =
     (case allele_profile_of_isolate df i gs of
        Inl e \<Rightarrow> Inl e
      | Inr key \<Rightarrow>
          (case st_value pint profiles key of
             Inl e \<Rightarrow> Inl e
           | Inr v \<Rightarrow> Inr (set_loc df i ''ST'' v)))"
  by (simp add: assign_isolate_def st_value_def fst_log_then fst_raise fst_ok
      split: sum.splits option.splits)

lemma same_genes_set_loc: "same_genes df0 df \<Longrightarrow> same_genes df0 (set_loc df i ''ST'' v)"
  by (auto simp: same_genes_def set_loc_def)

lemma assign_loop_result:
  assumes "Some ''ST'' \<notin> set gs" "distinct ids"
    and "\<forall>i\<in>set ids. \<exists>key v. allele_profile_of_isolate df0 i gs = Inr key \<and>
            st_value pint profiles key = Inr v"
    and "same_genes df0 df"
  shows "\<exists>df'. fst (assign_loop pint (Some gs) profiles df ids) = Inr df' \<and> same_genes df0 df'
     \<and> (\<forall>i\<in>set ids. \<exists>key. allele_profile_of_isolate df0 i gs = Inr key \<and>
            st_value pint profiles key = Inr (df_cells df' (i, ''ST'')))
     \<and> (\<forall>i. i \<notin> set ids \<longrightarrow> df_cells df' (i, ''ST'') = df_cells df (i, ''ST''))"
  using assms(2,3,4)
proof (induction ids arbitrary: df)
  case Nil
  then show ?case by (simp add: ok_def)
next
  case (Cons i ids)
  from Cons.prems(2) obtain key v where
    k: "allele_profile_of_isolate df0 i gs = Inr key" and v: "st_value pint profiles key = Inr v"
    by auto
  have k': "allele_profile_of_isolate df i gs = Inr key"
    using key_same[OF Cons.prems(3) assms(1)] k by simp
  have step: "fst (assign_isolate pint (Some gs) profiles df i) = Inr (set_loc df i ''ST'' v)"
    by (simp add: assign_isolate_eq k' v)
  have eq: "fst (assign_loop pint (Some gs) profiles df (i # ids)) =
            fst (assign_loop pint (Some gs) profiles (set_loc df i ''ST'' v) ids)"
    by (simp add: fst_and_then_Inr[OF step])
  have d: "distinct ids" and ni: "i \<notin> set ids" using Cons.prems(1) by simp_all
  have h: "\<forall>i\<in>set ids. \<exists>key v. allele_profile_of_isolate df0 i gs = Inr key \<and>
            st_value pint profiles key = Inr v" using Cons.prems(2) by simp
  from Cons.IH[OF d h same_genes_set_loc[OF Cons.prems(3)], of i v] obtain df' where
    r: "fst (assign_loop pint (Some gs) profiles (set_loc df i ''ST'' v) ids) = Inr df'"
    and s: "same_genes df0 df'"
    and c: "\<forall>i\<in>set ids. \<exists>key. allele_profile_of_isolate df0 i gs = Inr key \<and>
            st_value pint profiles key = Inr (df_cells df' (i, ''ST''))"
    and u: "\<forall>j. j \<notin> set ids \<longrightarrow> df_cells df' (j, ''ST'') = df_cells (set_loc df i ''ST'' v) (j, ''ST'')"
    by blast
  from u ni have here: "df_cells df' (i, ''ST'') = v" by (simp add: set_loc_def)
  have c': "\<forall>j\<in>set (i # ids). \<exists>key. allele_profile_of_isolate df0 j gs = Inr key \<and>
            st_value pint profiles key = Inr (df_cells df' (j, ''ST''))"
    using c k v here by auto
  have u': "\<forall>j. j \<notin> set (i # ids) \<longrightarrow> df_cells df' (j, ''ST'') = df_cells df (j, ''ST'')"
    using u by (auto simp: set_loc_def)
  from r s c' u' show ?case unfolding eq by blast
qed

lemma find_Some_in: "find P xs = Some x \<Longrightarrow> x \<in> set xs \<and> P x"
  by (induction xs) (auto split: if_splits)

lemma latest_SomeD:
  assumes "latest P val xs None = Some v"
  shows "\<exists>x\<in>set xs. P x \<and> v = val x"
proof -
  from assms obtain x where "find P (rev xs) = Some x" "v = val x"
    by (auto simp: latest_def split: option.splits)
  with find_Some_in[of P "rev xs" x] show ?thesis by auto
qed

lemma same_genes_refl: "same_genes df df"
  by (simp add: same_genes_def)

lemma row_entry_key:
  "row_entry repr gs row \<noteq> None \<Longrightarrow>
   (map_option fst (row_entry repr gs row) = Some k) = (allele_profile_of_row repr gs row = Inr k)"
  by (auto simp: row_entry_def split: sum.splits)

lemma row_entry_st:
  "row_entry repr gs row \<noteq> None \<Longrightarrow>
   getitem row (Some ''ST'') = Inr (snd (the (row_entry repr gs row)))"
  by (auto simp: row_entry_def split: sum.splits)

lemma sort_values_ok:
  assumes "\<forall>g\<in>set gs. \<exists>c. g = Some c \<and> c \<in> set (df_columns df)"
  shows "sort_values df (Some gs) = ok df"
proof -
  have "\<forall>g\<in>set gs. case g of None \<Rightarrow> False | Some c \<Rightarrow> c \<in> set (df_columns df)"
    using assms by auto
  then show ?thesis by (simp add: sort_values_def)
qed

lemma assign_after_load:
  assumes load: "fst (load_mlst_profiles repr fs path) = Inr (Some genes, profiles)"
    and cols: "\<forall>g\<in>set genes. \<exists>c. g = Some c \<and> c \<in> set (df_columns df)"
    and ints: "\<forall>row\<in>set (profile_table fs path). \<forall>st.
                 getitem row (Some ''ST'') = Inr st \<longrightarrow> (\<exists>n. int_of_cell pint st = Inr n)"
    and dist: "distinct (df_index df)"
  shows "\<exists>df'. fst (assign_sequence_types pint repr fs path df) = Inr df' \<and> same_genes df df' \<and>
     (\<forall>i\<in>set (df_index df).
        st_value pint profiles (join '','' (map (key_part df i) genes)) =
          Inr (df_cells df' (i, ''ST'')))"
proof -
  from load_profiles_rows[OF load] have st: "Some ''ST'' \<notin> set genes"
    and ent: "\<forall>row\<in>set (profile_table fs path). row_entry repr genes row \<noteq> None"
    and mp: "\<forall>k. map_of profiles k =
            latest (\<lambda>row. map_option fst (row_entry repr genes row) = Some k)
                   (\<lambda>row. snd (the (row_entry repr genes row))) (profile_table fs path) None"
    by simp_all
  have sv: "\<And>key. \<exists>v. st_value pint profiles key = Inr v"
  proof -
    fix key
    show "\<exists>v. st_value pint profiles key = Inr v"
    proof (cases "map_of profiles key")
      case None
      then show ?thesis by (simp add: st_value_def)
    next
      case (Some s)
      with mp have "latest (\<lambda>row. map_option fst (row_entry repr genes row) = Some key)
                   (\<lambda>row. snd (the (row_entry repr genes row))) (profile_table fs path) None = Some s"
        by simp
      from latest_SomeD[OF this] obtain row where
        row: "row \<in> set (profile_table fs path)" and s: "s = snd (the (row_entry repr genes row))"
        by blast
      from row ent have "getitem row (Some ''ST'') = Inr s" using row_entry_st s by blast
      with ints row obtain n where "int_of_cell pint s = Inr n" by blast
      then show ?thesis by (simp add: st_value_def Some)
    qed
  qed
  have all: "\<forall>i\<in>set (df_index df). \<exists>key v. allele_profile_of_isolate df i genes = Inr key \<and>
            st_value pint profiles key = Inr v"
    using key_defined[OF cols] sv by blast
  from assign_loop_result[OF st dist all same_genes_refl] obtain df' where
    r: "fst (assign_loop pint (Some genes) profiles df (df_index df)) = Inr df'"
    and s: "same_genes df df'"
    and c: "\<forall>i\<in>set (df_index df). \<exists>key. allele_profile_of_isolate df i genes = Inr key \<and>
            st_value pint profiles key = Inr (df_cells df' (i, ''ST''))"
    by blast
  have cols': "\<forall>g\<in>set genes. \<exists>c. g = Some c \<and> c \<in> set (df_columns df')"
  proof
    fix g assume g: "g \<in> set genes"
    with cols obtain c where c: "g = Some c" "c \<in> set (df_columns df)" by blast
    with g st have "c \<noteq> ''ST''" by auto
    with s c show "\<exists>c. g = Some c \<and> c \<in> set (df_columns df')" by (auto simp: same_genes_def)
  qed
  have "fst (assign_sequence_types pint repr fs path df) =
        fst (and_then (assign_loop pint (Some genes) profiles df (df_index df))
               (\<lambda>df'. sort_values df' (Some genes)))"
    by (simp add: assign_sequence_types_def fst_log_then fst_and_then_Inr[OF load])
  also have "\<dots> = fst (sort_values df' (Some genes))"
    by (simp add: fst_and_then_Inr[OF r])
  also have "\<dots> = Inr df'" by (simp add: sort_values_ok[OF cols'] fst_ok)
  finally have res: "fst (assign_sequence_types pint repr fs path df) = Inr df'" .
  have "\<forall>i\<in>set (df_index df).
        st_value pint profiles (join '','' (map (key_part df i) genes)) =
          Inr (df_cells df' (i, ''ST''))"
    using c key_defined[OF cols] by auto
  with res s show ?thesis by blast
qed

text \<open>
  The resolver on a profile table that loads with at least one row, when every locus of
  the table is a column of the results table and every \<open>ST\<close> value an integer literal:
  \<open>_assign_sequence_types\<close> returns, and for every genome the key is the comma-joined
  text of its cells in the gene order of the table; when rows of the table have this
  key, the \<open>ST\<close> cell of the genome is \<open>int\<close> of the \<open>ST\<close> value of the last such row; when
  no row has this key, the \<open>ST\<close> cell is the string "NEW".
\<close>

lemma sequence_type_of_last_matching_row:
  assumes load: "fst (load_mlst_profiles repr fs path) = Inr (Some genes, profiles)"
    and cols: "\<forall>g\<in>set genes. \<exists>c. g = Some c \<and> c \<in> set (df_columns df)"
    and ints: "\<forall>row\<in>set (profile_table fs path). \<forall>st.
                 getitem row (Some ''ST'') = Inr st \<longrightarrow> (\<exists>n. int_of_cell pint st = Inr n)"
    and dist: "distinct (df_index df)"
  shows "\<exists>df'. fst (assign_sequence_types pint repr fs path df) = Inr df' \<and>
     (\<forall>i\<in>set (df_index df). \<exists>key. allele_profile_of_isolate df i genes = Inr key \<and>
        (\<forall>pre row post.
            profile_table fs path = pre @ row # post \<and>
            allele_profile_of_row repr genes row = Inr key \<and>
            (\<forall>r\<in>set post. allele_profile_of_row repr genes r \<noteq> Inr key) \<longrightarrow>
            (\<exists>st n. getitem row (Some ''ST'') = Inr st \<and> int_of_cell pint st = Inr n \<and>
                    df_cells df' (i, ''ST'') = Int_val n)) \<and>
        ((\<forall>r\<in>set (profile_table fs path). allele_profile_of_row repr genes r \<noteq> Inr key) \<longrightarrow>
            df_cells df' (i, ''ST'') = Str_val ''NEW''))"
proof -
  from load_profiles_rows[OF load] have
    ent: "\<forall>row\<in>set (profile_table fs path). row_entry repr genes row \<noteq> None"
    and mp: "\<forall>k. map_of profiles k =
            latest (\<lambda>row. map_option fst (row_entry repr genes row) = Some k)
                   (\<lambda>row. snd (the (row_entry repr genes row))) (profile_table fs path) None"
    by simp_all
  from assign_after_load[OF load cols ints dist] obtain df' where
    res: "fst (assign_sequence_types pint repr fs path df) = Inr df'"
    and c: "\<forall>i\<in>set (df_index df).
        st_value pint profiles (join '','' (map (key_part df i) genes)) =
          Inr (df_cells df' (i, ''ST''))"
    by blast
  have "\<forall>i\<in>set (df_index df). \<exists>key. allele_profile_of_isolate df i genes = Inr key \<and>
        (\<forall>pre row post.
            profile_table fs path = pre @ row # post \<and>
            allele_profile_of_row repr genes row = Inr key \<and>
            (\<forall>r\<in>set post. allele_profile_of_row repr genes r \<noteq> Inr key) \<longrightarrow>
            (\<exists>st n. getitem row (Some ''ST'') = Inr st \<and> int_of_cell pint st = Inr n \<and>
                    df_cells df' (i, ''ST'') = Int_val n)) \<and>
        ((\<forall>r\<in>set (profile_table fs path). allele_profile_of_row repr genes r \<noteq> Inr key) \<longrightarrow>
            df_cells df' (i, ''ST'') = Str_val ''NEW'')"
  proof
    fix i assume i: "i \<in> set (df_index df)"
    define key where "key = join '','' (map (key_part df i) genes)"
    have k: "allele_profile_of_isolate df i genes = Inr key"
      using key_defined[OF cols] by (simp add: key_def)
    from c i have v: "st_value pint profiles key = Inr (df_cells df' (i, ''ST''))"
      by (simp add: key_def)
    have a: "\<forall>pre row post.
            profile_table fs path = pre @ row # post \<and>
            allele_profile_of_row repr genes row = Inr key \<and>
            (\<forall>r\<in>set post. allele_profile_of_row repr genes r \<noteq> Inr key) \<longrightarrow>
            (\<exists>st n. getitem row (Some ''ST'') = Inr st \<and> int_of_cell pint st = Inr n \<and>
                    df_cells df' (i, ''ST'') = Int_val n)"
    proof (intro allI impI)
      fix pre row post
      assume h: "profile_table fs path = pre @ row # post \<and>
            allele_profile_of_row repr genes row = Inr key \<and>
            (\<forall>r\<in>set post. allele_profile_of_row repr genes r \<noteq> Inr key)"
      then have rin: "row \<in> set (profile_table fs path)"
        and pin: "\<forall>r\<in>set post. r \<in> set (profile_table fs path)" by simp_all
      from rin ent have re: "row_entry repr genes row \<noteq> None" by blast
      have P: "map_option fst (row_entry repr genes row) = Some key"
        using row_entry_key[OF re] h by simp
      have N: "\<forall>r\<in>set post. \<not> (map_option fst (row_entry repr genes r) = Some key)"
        using row_entry_key pin ent h by blast
      define st where "st = snd (the (row_entry repr genes row))"
      have "map_of profiles key = Some st"
        unfolding mp[rule_format] st_def using latest_last[OF _ P N] h by blast
      moreover have g: "getitem row (Some ''ST'') = Inr st"
        using row_entry_st[OF re] by (simp add: st_def)
      moreover from ints rin g obtain n where n: "int_of_cell pint st = Inr n" by blast
      ultimately have "st_value pint profiles key = Inr (Int_val n)" by (simp add: st_value_def)
      with v have "df_cells df' (i, ''ST'') = Int_val n" by simp
      with g n show "\<exists>st n. getitem row (Some ''ST'') = Inr st \<and> int_of_cell pint st = Inr n \<and>
                    df_cells df' (i, ''ST'') = Int_val n" by blast
    qed
    have b: "(\<forall>r\<in>set (profile_table fs path). allele_profile_of_row repr genes r \<noteq> Inr key) \<longrightarrow>
            df_cells df' (i, ''ST'') = Str_val ''NEW''"
    proof
      assume h: "\<forall>r\<in>set (profile_table fs path). allele_profile_of_row repr genes r \<noteq> Inr key"
      have N: "\<forall>r\<in>set (profile_table fs path). \<not> (map_option fst (row_entry repr genes r) = Some key)"
        using row_entry_key ent h by blast
      have "map_of profiles key = None"
        unfolding mp[rule_format] using latest_none[OF N] by blast
      then have "st_value pint profiles key = Inr (Str_val ''NEW'')" by (simp add: st_value_def)
      with v show "df_cells df' (i, ''ST'') = Str_val ''NEW''" by simp
    qed
    from k a b show "\<exists>key. allele_profile_of_isolate df i genes = Inr key \<and>
        (\<forall>pre row post.
            profile_table fs path = pre @ row # post \<and>
            allele_profile_of_row repr genes row = Inr key \<and>
            (\<forall>r\<in>set post. allele_profile_of_row repr genes r \<noteq> Inr key) \<longrightarrow>
            (\<exists>st n. getitem row (Some ''ST'') = Inr st \<and> int_of_cell pint st = Inr n \<and>
                    df_cells df' (i, ''ST'') = Int_val n)) \<and>
        ((\<forall>r\<in>set (profile_table fs path). allele_profile_of_row repr genes r \<noteq> Inr key) \<longrightarrow>
            df_cells df' (i, ''ST'') = Str_val ''NEW'')" by blast
  qed
  with res show ?thesis by blast
qed

text \<open>
  With one row per allele combination this is the sequence type of the matching row, and
  the gene order is the ascending order of the locus names.
\<close>

lemma sequence_type_of_matching_row:
  assumes load: "fst (load_mlst_profiles repr fs path) = Inr (Some genes, profiles)"
    and cols: "\<forall>g\<in>set genes. \<exists>c. g = Some c \<and> c \<in> set (df_columns df)"
    and ints: "\<forall>row\<in>set (profile_table fs path). \<forall>st.
                 getitem row (Some ''ST'') = Inr st \<longrightarrow> (\<exists>n. int_of_cell pint st = Inr n)"
    and dist: "distinct (df_index df)"
    and one_row: "distinct (map (allele_profile_of_row repr genes) (profile_table fs path))"
  shows "(\<exists>loci. genes = map Some loci \<and> sorted loci) \<and>
     (\<exists>df'. fst (assign_sequence_types pint repr fs path df) = Inr df' \<and>
       (\<forall>i\<in>set (df_index df).
          allele_profile_of_isolate df i genes = Inr (join '','' (map (key_part df i) genes)) \<and>
          (\<forall>row\<in>set (profile_table fs path).
              allele_profile_of_row repr genes row = Inr (join '','' (map (key_part df i) genes)) \<longrightarrow>
              (\<exists>st n. getitem row (Some ''ST'') = Inr st \<and> int_of_cell pint st = Inr n \<and>
                      df_cells df' (i, ''ST'') = Int_val n)) \<and>
          ((\<forall>r\<in>set (profile_table fs path).
               allele_profile_of_row repr genes r \<noteq> Inr (join '','' (map (key_part df i) genes))) \<longrightarrow>
              df_cells df' (i, ''ST'') = Str_val ''NEW'')))"
proof -
  from load_profiles_genes[OF load] obtain fieldnames rest row where
    s: "py_sorted (filter (\<lambda>k. k \<noteq> Some ''ST'' \<and> k \<noteq> Some ''clonal_complex'')
                   (map fst (dict_reader_row fieldnames row))) = Inr genes" by blast
  from cols have "None \<notin> set genes" by auto
  from py_sorted_ascending[OF s this] have asc: "\<exists>loci. genes = map Some loci \<and> sorted loci" .
  from sequence_type_of_last_matching_row[OF load cols ints dist] obtain df' where
    res: "fst (assign_sequence_types pint repr fs path df) = Inr df'"
    and c: "\<forall>i\<in>set (df_index df). \<exists>key. allele_profile_of_isolate df i genes = Inr key \<and>
        (\<forall>pre row post.
            profile_table fs path = pre @ row # post \<and>
            allele_profile_of_row repr genes row = Inr key \<and>
            (\<forall>r\<in>set post. allele_profile_of_row repr genes r \<noteq> Inr key) \<longrightarrow>
            (\<exists>st n. getitem row (Some ''ST'') = Inr st \<and> int_of_cell pint st = Inr n \<and>
                    df_cells df' (i, ''ST'') = Int_val n)) \<and>
        ((\<forall>r\<in>set (profile_table fs path). allele_profile_of_row repr genes r \<noteq> Inr key) \<longrightarrow>
            df_cells df' (i, ''ST'') = Str_val ''NEW'')"
    by blast
  have "\<forall>i\<in>set (df_index df).
          allele_profile_of_isolate df i genes = Inr (join '','' (map (key_part df i) genes)) \<and>
          (\<forall>row\<in>set (profile_table fs path).
              allele_profile_of_row repr genes row = Inr (join '','' (map (key_part df i) genes)) \<longrightarrow>
              (\<exists>st n. getitem row (Some ''ST'') = Inr st \<and> int_of_cell pint st = Inr n \<and>
                      df_cells df' (i, ''ST'') = Int_val n)) \<and>
          ((\<forall>r\<in>set (profile_table fs path).
               allele_profile_of_row repr genes r \<noteq> Inr (join '','' (map (key_part df i) genes))) \<longrightarrow>
              df_cells df' (i, ''ST'') = Str_val ''NEW'')"
  proof
    fix i assume i: "i \<in> set (df_index df)"
    define key where "key = join '','' (map (key_part df i) genes)"
    have k: "allele_profile_of_isolate df i genes = Inr key"
      using key_defined[OF cols] by (simp add: key_def)
    from c[rule_format, OF i] k have
      a: "\<forall>pre row post.
            profile_table fs path = pre @ row # post \<and>
            allele_profile_of_row repr genes row = Inr key \<and>
            (\<forall>r\<in>set post. allele_profile_of_row repr genes r \<noteq> Inr key) \<longrightarrow>
            (\<exists>st n. getitem row (Some ''ST'') = Inr st \<and> int_of_cell pint st = Inr n \<and>
                    df_cells df' (i, ''ST'') = Int_val n)"
      and b: "(\<forall>r\<in>set (profile_table fs path). allele_profile_of_row repr genes r \<noteq> Inr key) \<longrightarrow>
            df_cells df' (i, ''ST'') = Str_val ''NEW''"
      by auto
    have m: "\<forall>row\<in>set (profile_table fs path).
              allele_profile_of_row repr genes row = Inr key \<longrightarrow>
              (\<exists>st n. getitem row (Some ''ST'') = Inr st \<and> int_of_cell pint st = Inr n \<and>
                      df_cells df' (i, ''ST'') = Int_val n)"
    proof (intro ballI impI)
      fix row assume rin: "row \<in> set (profile_table fs path)"
        and rk: "allele_profile_of_row repr genes row = Inr key"
      from split_list[OF rin] obtain pre post where
        sp: "profile_table fs path = pre @ row # post" by blast
      from one_row have "distinct (map (allele_profile_of_row repr genes) (pre @ row # post))"
        by (simp add: sp)
      then have "allele_profile_of_row repr genes row
                 \<notin> allele_profile_of_row repr genes ` set post" by simp
      with rk have np: "\<forall>r\<in>set post. allele_profile_of_row repr genes r \<noteq> Inr key"
        by (metis imageI)
      from a[rule_format, of pre row post] sp rk np
      show "\<exists>st n. getitem row (Some ''ST'') = Inr st \<and> int_of_cell pint st = Inr n \<and>
                      df_cells df' (i, ''ST'') = Int_val n" by blast
    qed
    from k m b show "allele_profile_of_isolate df i genes = Inr (join '','' (map (key_part df i) genes)) \<and>
          (\<forall>row\<in>set (profile_table fs path).
              allele_profile_of_row repr genes row = Inr (join '','' (map (key_part df i) genes)) \<longrightarrow>
              (\<exists>st n. getitem row (Some ''ST'') = Inr st \<and> int_of_cell pint st = Inr n \<and>
                      df_cells df' (i, ''ST'') = Int_val n)) \<and>
          ((\<forall>r\<in>set (profile_table fs path).
               allele_profile_of_row repr genes r \<noteq> Inr (join '','' (map (key_part df i) genes))) \<longrightarrow>
              df_cells df' (i, ''ST'') = Str_val ''NEW'')"
      unfolding key_def by blast
  qed
  with asc res show ?thesis by blast
qed

lemma no_profile_rows_raises:
  assumes "fs path = Rows rows" and "dict_rows (tl rows) = []"
  shows "fst (load_mlst_profiles repr fs path) = Inr (None, [])"
    and "fst (assign_sequence_types pint repr fs path df) = Inl TypeError"
proof -
  show l: "fst (load_mlst_profiles repr fs path) = Inr (None, [])"
    using assms
    by (cases rows) (simp_all add: load_mlst_profiles_def fst_log_then fst_ok Let_def ok_def)
  have "fst (and_then (assign_loop pint None [] df (df_index df))
               (\<lambda>df'. sort_values df' None)) = Inl TypeError"
  proof (cases "df_index df")
    case Nil
    then show ?thesis
      by (simp add: fst_and_then_Inr[OF fst_ok] sort_values_def fst_raise)
  next
    case (Cons i ids)
    have "fst (assign_isolate pint None [] df i) = Inl TypeError"
      by (simp add: assign_isolate_def fst_raise)
    then have "fst (assign_loop pint None [] df (i # ids)) = Inl TypeError"
      by (simp add: fst_and_then_Inl)
    then show ?thesis by (simp add: Cons fst_and_then_Inl)
  qed
  then show "fst (assign_sequence_types pint repr fs path df) = Inl TypeError"
    by (simp add: assign_sequence_types_def fst_log_then fst_and_then_Inr[OF l])
qed

text \<open>
  C2 does not hold of the code. The profile file has its header line and no row beneath:
  no profile row matches the key of any genome, and by C2 every genome is assigned
  "NEW". \<open>_load_mlst_profiles\<close> returns \<open>None\<close> for the gene order, which it sets in the
  loop over the rows only, and \<open>_assign_sequence_types\<close> raises \<open>TypeError\<close> at
  \<open>for gene in genes\<close> for the first genome: no genome is assigned a sequence type.
\<close>

theorem header_only_profile_raises:
  "fs_header_only ''profiles.tsv'' = Rows [[''ST'', ''abc'', ''xyz'', ''clonal_complex'']]
   \<and> profile_table fs_header_only ''profiles.tsv'' = []
   \<and> fst (load_mlst_profiles no_repr fs_header_only ''profiles.tsv'') = Inr (None, [])
   \<and> df_index typed_table = [''G1'', ''G2'']
   \<and> fst (assign_isolate digits_int None [] typed_table ''G1'') = Inl TypeError
   \<and> fst (assign_sequence_types digits_int no_repr fs_header_only ''profiles.tsv'' typed_table)
       = Inl TypeError"
proof -
  have r: "fs_header_only ''profiles.tsv'' = Rows [[''ST'', ''abc'', ''xyz'', ''clonal_complex'']]"
    by (simp add: fs_header_only_def profile_header_def)
  have d: "dict_rows (tl [[''ST'', ''abc'', ''xyz'', ''clonal_complex'']]) = []"
    by (simp add: dict_rows_def)
  have t: "profile_table fs_header_only ''profiles.tsv'' = []"
    by (simp add: profile_table_def r dict_rows_def)
  have i: "df_index typed_table = [''G1'', ''G2'']" by (simp add: typed_table_def)
  have a: "fst (assign_isolate digits_int None [] typed_table ''G1'') = Inl TypeError"
    by (simp add: assign_isolate_def fst_raise)
  from r t i a
    no_profile_rows_raises[where fs = fs_header_only and path = "''profiles.tsv''", OF r d]
  show ?thesis by simp
qed

lemma digit_char_not_comma:
  assumes "d < 10"
  shows "digit_char d \<noteq> CHR '',''"
proof
  assume "digit_char d = CHR '',''"
  then have "(of_char (char_of (48 + d)) :: nat) = of_char CHR '',''"
    by (simp add: digit_char_def)
  with assms show False by simp
qed

lemma str_nat_no_comma: "CHR '','' \<notin> set (str_nat n)"
proof (induction n rule: str_nat.induct)
  case (1 n)
  show ?case
  proof (cases "n < 10")
    case True
    then show ?thesis using digit_char_not_comma[OF True] by (subst str_nat.simps) simp
  next
    case False
    have "n mod 10 < 10" by simp
    from digit_char_not_comma[OF this] "1.IH"[OF False] False
    show ?thesis by (subst str_nat.simps) simp
  qed
qed

lemma str_int_no_comma: "CHR '','' \<notin> set (str_int n)"
  by (simp add: str_int_def str_nat_no_comma)

lemma join_commas:
  "count_list (join '','' xs) CHR '','' =
     (length xs - 1) + sum_list (map (\<lambda>x. count_list x CHR '','') xs)"
  by (induction "'',''" xs rule: join.induct) simp_all

lemma count_list_zero: "count_list xs c = 0 \<longleftrightarrow> c \<notin> set xs"
  by (induction xs) auto

lemma append_comma_eq:
  assumes "c \<notin> set x" "c \<notin> set y" "x @ c # r = y @ c # r'"
  shows "x = y \<and> r = r'"
  using assms
proof (induction x arbitrary: y)
  case Nil
  then show ?case by (cases y) auto
next
  case (Cons a x)
  then show ?case by (cases y) auto
qed

lemma join_inj_free:
  assumes "length xs = length ys"
    and "\<forall>x\<in>set xs. CHR '','' \<notin> set x" "\<forall>y\<in>set ys. CHR '','' \<notin> set y"
    and "join '','' xs = join '','' ys"
  shows "xs = ys"
  using assms
proof (induction xs ys rule: list_induct2)
  case Nil
  show ?case by simp
next
  case (Cons x xs y ys)
  show ?case
  proof (cases xs)
    case Nil
    with Cons.hyps have "ys = []" by simp
    with Nil Cons.prems show ?thesis by simp
  next
    case (Cons x' xs')
    with Cons.hyps obtain y' ys' where ys: "ys = y' # ys'" by (cases ys) auto
    from Cons.prems(3) Cons ys have e: "x @ CHR '','' # join '','' xs = y @ CHR '','' # join '','' ys"
      by simp
    from Cons.prems(1,2) have "CHR '','' \<notin> set x" "CHR '','' \<notin> set y" by simp_all
    from append_comma_eq[OF this e] have "x = y" "join '','' xs = join '','' ys" by simp_all
    moreover from Cons.prems(1,2) have "\<forall>x\<in>set xs. CHR '','' \<notin> set x" "\<forall>y\<in>set ys. CHR '','' \<notin> set y"
      by simp_all
    ultimately show ?thesis using Cons.IH by simp
  qed
qed

lemma sum_list_zero_all: "sum_list (map f xs) = (0::nat) \<Longrightarrow> \<forall>x\<in>set xs. f x = 0"
  by (induction xs) auto

lemma join_inj:
  assumes len: "length xs = length ys"
    and free: "\<forall>x\<in>set xs. CHR '','' \<notin> set x"
    and eq: "join '','' xs = join '','' ys"
  shows "xs = ys"
proof -
  define sx where "sx = sum_list (map (\<lambda>x. count_list x CHR '','') xs)"
  define sy where "sy = sum_list (map (\<lambda>x. count_list x CHR '','') ys)"
  have "sx = 0"
    unfolding sx_def using free by (induction xs) (auto simp: count_list_zero)
  moreover have "(length xs - 1) + sx = (length ys - 1) + sy"
    unfolding sx_def sy_def using join_commas[of xs] join_commas[of ys] eq by metis
  ultimately have "sy = 0" using len by simp
  from sum_list_zero_all[OF this[unfolded sy_def]] have "\<forall>y\<in>set ys. CHR '','' \<notin> set y"
    by (simp add: count_list_zero)
  from join_inj_free[OF len free this eq] show ?thesis .
qed

lemma comprehension_InrD:
  "comprehension f xs = Inr ys \<Longrightarrow>
   length ys = length xs \<and> (\<forall>j<length xs. f (xs ! j) = Inr (ys ! j))"
proof (induction xs arbitrary: ys)
  case Nil
  then show ?case by simp
next
  case (Cons a xs)
  from Cons.prems obtain y ys' where fa: "f a = Inr y" and r: "comprehension f xs = Inr ys'"
    and ys: "ys = y # ys'" by (auto split: sum.splits)
  from Cons.IH[OF r] have l: "length ys' = length xs"
    and a: "\<forall>j<length xs. f (xs ! j) = Inr (ys' ! j)" by simp_all
  have "\<forall>j<length (a # xs). f ((a # xs) ! j) = Inr (ys ! j)"
  proof (intro allI impI)
    fix j assume "j < length (a # xs)"
    then show "f ((a # xs) ! j) = Inr (ys ! j)" using fa a ys by (cases j) simp_all
  qed
  with l ys show ?case by simp
qed

lemma key_part_free:
  assumes "\<forall>c s. df_cells df (i, c) \<noteq> Str_val s"
  shows "CHR '','' \<notin> set (key_part df i g)"
proof (cases g)
  case None
  then show ?thesis by (simp add: key_part_def)
next
  case (Some c)
  show ?thesis
  proof (cases "df_cells df (i, c)")
    case (Int_val n)
    then show ?thesis by (simp add: Some key_part_def notna_def str_dfval_def str_int_no_comma)
  next
    case (Str_val s)
    with assms show ?thesis by blast
  qed (simp_all add: Some key_part_def notna_def)
qed

text \<open>
  C5, as amended. Let the profile table load with at least one row, let every locus of
  the table be a column of the results table and every \<open>ST\<close> value of the table an integer
  literal. Let a genome have a missing value (\<open>None\<close> or \<open>NaN\<close>) at a locus \<open>g\<close> of the
  profile table and no text cell, and let no profile row have the text "NA" at \<open>g\<close>. Then \<open>_assign_sequence_types\<close> returns, the key of the genome
  has "NA" at every position of \<open>g\<close>, and the \<open>ST\<close> cell of the genome is "NEW".
\<close>

theorem missing_locus_gives_NEW:
  assumes load: "fst (load_mlst_profiles repr fs path) = Inr (Some genes, profiles)"
    and cols: "\<forall>g\<in>set genes. \<exists>c. g = Some c \<and> c \<in> set (df_columns df)"
    and ints: "\<forall>row\<in>set (profile_table fs path). \<forall>st.
                 getitem row (Some ''ST'') = Inr st \<longrightarrow> (\<exists>n. int_of_cell pint st = Inr n)"
    and dist: "distinct (df_index df)"
    and i: "i \<in> set (df_index df)"
    and plain: "\<forall>c s. df_cells df (i, c) \<noteq> Str_val s"
    and g: "Some g \<in> set genes"
    and none: "\<not> notna (df_cells df (i, g))"
    and noNA: "\<forall>row\<in>set (profile_table fs path). \<forall>v.
                 getitem row (Some g) = Inr v \<longrightarrow> str_cell repr v \<noteq> ''NA''"
  shows "\<exists>df' parts. fst (assign_sequence_types pint repr fs path df) = Inr df' \<and>
      allele_profile_of_isolate df i genes = Inr (join '','' parts) \<and>
      length parts = length genes \<and>
      (\<forall>j<length genes. genes ! j = Some g \<longrightarrow> parts ! j = ''NA'') \<and>
      df_cells df' (i, ''ST'') = Str_val ''NEW''"
proof -
  define parts where "parts = map (key_part df i) genes"
  define key where "key = join '','' parts"
  have k: "allele_profile_of_isolate df i genes = Inr (join '','' parts)"
    using key_defined[OF cols] by (simp add: parts_def)
  have len: "length parts = length genes" by (simp add: parts_def)
  have na: "\<forall>j<length genes. genes ! j = Some g \<longrightarrow> parts ! j = ''NA''"
    using none by (simp add: parts_def key_part_def)
  have free: "\<forall>x\<in>set parts. CHR '','' \<notin> set x"
    using key_part_free[OF plain] by (auto simp: parts_def)
  from load_profiles_rows[OF load] have
    ent: "\<forall>row\<in>set (profile_table fs path). row_entry repr genes row \<noteq> None"
    and mp: "\<forall>k. map_of profiles k =
            latest (\<lambda>row. map_option fst (row_entry repr genes row) = Some k)
                   (\<lambda>row. snd (the (row_entry repr genes row))) (profile_table fs path) None"
    by simp_all
  from g obtain j where j: "j < length genes" "genes ! j = Some g" by (auto simp: in_set_conv_nth)
  have differ: "\<forall>row\<in>set (profile_table fs path). allele_profile_of_row repr genes row \<noteq> Inr key"
  proof (intro ballI notI)
    fix row assume row: "row \<in> set (profile_table fs path)"
      and e: "allele_profile_of_row repr genes row = Inr key"
    from e obtain ps where c: "comprehension
             (\<lambda>gene. case getitem row gene of Inl e \<Rightarrow> Inl e | Inr v \<Rightarrow> Inr (str_cell repr v))
             genes = Inr ps" and jk: "join '','' ps = key"
      by (auto simp: allele_profile_of_row_def split: sum.splits)
    from comprehension_InrD[OF c] have pl: "length ps = length genes"
      and pj: "\<forall>j<length genes.
         (case getitem row (genes ! j) of Inl e \<Rightarrow> Inl e | Inr v \<Rightarrow> Inr (str_cell repr v)) = Inr (ps ! j)"
      by simp_all
    from join_inj[of parts ps] len pl free jk have "parts = ps" by (simp add: key_def)
    with na j have "ps ! j = ''NA''" by simp
    with pj j have cs: "(case getitem row (Some g) of Inl e \<Rightarrow> Inl e
                         | Inr v \<Rightarrow> Inr (str_cell repr v)) = (Inr ''NA'' :: error + string)"
      by metis
    then obtain v where "getitem row (Some g) = Inr v" "str_cell repr v = ''NA''"
      by (cases "getitem row (Some g)") simp_all
    with noNA row show False by blast
  qed
  have N: "\<forall>r\<in>set (profile_table fs path). \<not> (map_option fst (row_entry repr genes r) = Some key)"
    using row_entry_key ent differ by blast
  have "map_of profiles key = None"
    unfolding mp[rule_format] using latest_none[OF N] by blast
  then have new: "st_value pint profiles key = Inr (Str_val ''NEW'')" by (simp add: st_value_def)
  from assign_after_load[OF load cols ints dist] obtain df' where
    res: "fst (assign_sequence_types pint repr fs path df) = Inr df'"
    and c: "\<forall>i\<in>set (df_index df).
        st_value pint profiles (join '','' (map (key_part df i) genes)) =
          Inr (df_cells df' (i, ''ST''))"
    by blast
  from c i new have "df_cells df' (i, ''ST'') = Str_val ''NEW''"
    by (simp add: key_def parts_def)
  with res k len na show ?thesis by blast
qed

lemma typed_table_G2_key:
  "allele_profile_of_isolate typed_table ''G2'' [Some ''abc'', Some ''xyz''] = Inr ''3,NA''"
  by code_simp

lemma sample_ints:
  "int_of_cell digits_int (Text ''10'') = Inr 10"
  "int_of_cell digits_int (Text ''11'') = Inr 11"
  "int_of_cell digits_int (Text ''12'') = Inr 12"
  "int_of_cell digits_int (Text ''20'') = Inr 20"
  by code_simp+

text \<open>
  C5 as stated fails: genome G2 has no match at locus xyz and its key is "3,NA"; the
  profile table has a row with the literal text NA at xyz, and G2 is assigned ST 12.
\<close>

theorem literal_NA_counterexample:
  "df_cells typed_table (''G2'', ''xyz'') = None_val
   \<and> allele_profile_of_isolate typed_table ''G2'' [Some ''abc'', Some ''xyz''] = Inr ''3,NA''
   \<and> map_sum id (\<lambda>df. df_cells df (''G2'', ''ST''))
        (fst (assign_sequence_types digits_int no_repr fs_profiles_repeated ''profiles.tsv''
               typed_table))
      = Inr (Int_val 12)"
  by code_simp

lemma typed_table_cols:
  "\<forall>g\<in>set [Some ''abc'', Some ''xyz'']. \<exists>c. g = Some c \<and> c \<in> set (df_columns typed_table)"
  by (simp add: typed_table_def)

lemma plain_load:
  "fst (load_mlst_profiles no_repr fs_profiles ''profiles.tsv'') =
   Inr (Some [Some ''abc'', Some ''xyz''], [(''2,7'', Text ''10''), (''3,5'', Text ''20'')])"
  by code_simp

lemma plain_table:
  "profile_table fs_profiles ''profiles.tsv'' =
     [[(Some ''ST'', Text ''10''), (Some ''abc'', Text ''2''), (Some ''xyz'', Text ''7''),
       (Some ''clonal_complex'', Text ''CC1'')],
      [(Some ''ST'', Text ''20''), (Some ''abc'', Text ''3''), (Some ''xyz'', Text ''5''),
       (Some ''clonal_complex'', Text ''CC2'')]]"
  by code_simp

text \<open>
  Genome G2 against a profile table without the text NA: the key is "3,NA", the ST "NEW".
\<close>

theorem missing_locus_gives_NEW_witness:
  "\<exists>df'. fst (assign_sequence_types digits_int no_repr fs_profiles ''profiles.tsv'' typed_table)
            = Inr df'
      \<and> allele_profile_of_isolate typed_table ''G2'' [Some ''abc'', Some ''xyz''] = Inr ''3,NA''
      \<and> df_cells df' (''G2'', ''ST'') = Str_val ''NEW''"
proof -
  have dist: "distinct (df_index typed_table)" by (simp add: typed_table_def)
  have ints: "\<forall>row\<in>set (profile_table fs_profiles ''profiles.tsv''). \<forall>st.
      getitem row (Some ''ST'') = Inr st \<longrightarrow> (\<exists>n. int_of_cell digits_int st = Inr n)"
    by (auto simp: plain_table getitem_def sample_ints)
  have i: "''G2'' \<in> set (df_index typed_table)" by (simp add: typed_table_def)
  have plain: "\<forall>c s. df_cells typed_table (''G2'', c) \<noteq> Str_val s" by (simp add: typed_table_def)
  have g: "Some ''xyz'' \<in> set [Some ''abc'', Some ''xyz'']" by simp
  have none: "\<not> notna (df_cells typed_table (''G2'', ''xyz''))"
    by (simp add: typed_table_def notna_def)
  have noNA: "\<forall>row\<in>set (profile_table fs_profiles ''profiles.tsv''). \<forall>v.
                 getitem row (Some ''xyz'') = Inr v \<longrightarrow> str_cell no_repr v \<noteq> ''NA''"
    by (auto simp: plain_table getitem_def str_cell_def)
  from missing_locus_gives_NEW[OF plain_load typed_table_cols ints dist i plain g none noNA]
  obtain df' where
    "fst (assign_sequence_types digits_int no_repr fs_profiles ''profiles.tsv'' typed_table) = Inr df'"
    "df_cells df' (''G2'', ''ST'') = Str_val ''NEW''" by blast
  with typed_table_G2_key show ?thesis by blast
qed


section \<open>The pipeline\<close>










text \<open>
  The hypothesis on the header cannot be dropped: with a profile file whose only column
  is \<open>ST\<close> the key of every genome is the empty string, and the same run completes.
\<close>

lemma run_without_locus_columns:
  "load_alleles (allele_dir (world_without_loci fs_profile_without_loci)) =
     (Inr [], [Processing_allele_directory, Found_genes 0])
   \<and> map_sum id (\<lambda>df. (df_index df, df_columns df, df_cells df (''G1'', ''ST'')))
        (fst (run_analysis digits_int digits_float no_repr sample_args
               (world_without_loci fs_profile_without_loci)))
      = Inr ([''G1''], [''ST''], Int_val 1)
   \<and> last (snd (run_analysis digits_int digits_float no_repr sample_args
               (world_without_loci fs_profile_without_loci))) = Analysis_completed"
  by code_simp




end
